theory Spec2Isabelle
  imports Complex_Main "HOL-Library.Sublist" "HOL-Library.Multiset"
begin

section \<open>Strings of the source language\<close>

text \<open>
  Source strings are modelled as \<^typ>\<open>string\<close>; a character stands for the code unit
  with the same number (0 to 255), so \<open>charCodeAt\<close> is \<^const>\<open>of_char\<close> and the length
  of the list is the source's \<open>length\<close>. On this range \<open>toLowerCase\<close> maps A to Z and the
  Latin-1 capitals (192 to 222 except the multiplication sign 215) 32 code units up and
  leaves every other character alone.
\<close>

definition toLowerChar :: "char \<Rightarrow> char" where
  "toLowerChar c =
     (let n = (of_char c :: nat)
      in if (65 \<le> n \<and> n \<le> 90) \<or> (192 \<le> n \<and> n \<le> 222 \<and> n \<noteq> 215)
         then char_of (n + 32) else c)"

definition toLowerCase :: "string \<Rightarrow> string" where
  "toLowerCase s = map toLowerChar s"

text \<open>\<open>haystack.includes(needle)\<close>: the needle occurs at some position of the haystack.\<close>

fun str_includes :: "string \<Rightarrow> string \<Rightarrow> bool" where
  "str_includes [] needle = (needle = [])"
| "str_includes (c # cs) needle = (prefix needle (c # cs) \<or> str_includes cs needle)"

text \<open>\<open>parts.join(sep)\<close>.\<close>

fun join :: "string \<Rightarrow> string list \<Rightarrow> string" where
  "join sep [] = []"
| "join sep [x] = x"
| "join sep (x # y # ys) = x @ sep @ join sep (y # ys)"

text \<open>A non-negative integer inside a template literal: its decimal digits.\<close>

definition digitChar :: "nat \<Rightarrow> char" where
  "digitChar d = char_of (48 + d)"

function numberToString :: "nat \<Rightarrow> string" where
  "numberToString n =
     (if n < 10 then [digitChar n] else numberToString (n div 10) @ [digitChar (n mod 10)])"
  by pat_completeness auto
termination
  by (relation "measure id") auto

declare numberToString.simps [simp del]

text \<open>\<open>xs[i] ?? ''\<close>: an index out of range reads \<open>undefined\<close>, replaced by the empty string.\<close>

definition at_or_empty :: "string list \<Rightarrow> nat \<Rightarrow> string" where
  "at_or_empty xs i = (if i < length xs then xs ! i else [])"

text \<open>\<open>xs.splice(i, 1)\<close> on a copy: the list without position \<open>i\<close>.\<close>

definition splice_out :: "'a list \<Rightarrow> nat \<Rightarrow> 'a list" where
  "splice_out xs i = take i xs @ drop (Suc i) xs"


section \<open>Numbers of the source language\<close>

text \<open>
  A \<open>number\<close> of the source is a double: a finite value, \<open>NaN\<close> or one of the two
  infinities. The finite doubles are real numbers, and the three operations that the
  strategy engine applies to \<open>multiSelect.n\<close> (\<open>Math.max\<close>, the comparison \<open><\<close> with
  a length and the conversion of \<open>slice\<close> to an integer) are exact on them, so a finite
  value is modelled by the real number it denotes.
\<close>

datatype JsNumber = Num real | NaN | Infinity | NegInfinity

text \<open>\<open>Math.max(a, b)\<close>: \<open>NaN\<close> as soon as one argument is \<open>NaN\<close>.\<close>

fun Math_max :: "JsNumber \<Rightarrow> JsNumber \<Rightarrow> JsNumber" where
  "Math_max NaN b = NaN"
| "Math_max a NaN = NaN"
| "Math_max Infinity b = Infinity"
| "Math_max a Infinity = Infinity"
| "Math_max NegInfinity b = b"
| "Math_max a NegInfinity = a"
| "Math_max (Num a) (Num b) = Num (max a b)"

text \<open>\<open>len < n\<close> for a length \<open>len\<close>: every comparison with \<open>NaN\<close> is false.\<close>

fun lessThanNumber :: "nat \<Rightarrow> JsNumber \<Rightarrow> bool" where
  "lessThanNumber len (Num v) = (real len < v)"
| "lessThanNumber len NaN = False"
| "lessThanNumber len Infinity = True"
| "lessThanNumber len NegInfinity = False"

text \<open>
  \<open>xs.slice(0, n)\<close>: the end is converted to an integer by truncation towards zero
  (\<open>NaN\<close> to 0, an infinity to itself); a negative end counts from the end of the list;
  the end is then cut to the range from 0 to the length.
\<close>

definition truncateNumber :: "real \<Rightarrow> int" where
  "truncateNumber v = (if v < 0 then \<lceil>v\<rceil> else \<lfloor>v\<rfloor>)"

fun sliceFromStart :: "'a list \<Rightarrow> JsNumber \<Rightarrow> 'a list" where
  "sliceFromStart xs (Num v) =
     (let e = truncateNumber v
      in if e < 0 then take (nat (int (length xs) + e)) xs else take (nat e) xs)"
| "sliceFromStart xs NaN = take 0 xs"
| "sliceFromStart xs Infinity = xs"
| "sliceFromStart xs NegInfinity = take 0 xs"


section \<open>Data model (types/index.ts)\<close>

datatype InputType = single_select | multi_select | text_input | yes_no | unknown

record SurveyOption =
  label :: string
  selected :: bool

record QuestionState =
  questionText :: string
  supportText :: "string list"
  inputType :: InputType
  options :: "SurveyOption list"
  filledValue :: string
  navigationButtons :: "string list"
  progress :: "string option"
  visibleInputCount :: nat
  url :: string

text \<open>
  \<open>visibleInputCount\<close> is a sum of numbers of elements, hence a natural number. The
  input type \<open>text\<close> of the source is \<open>text_input\<close> here.
\<close>

datatype AnswerStrategy = Strategy_first | Strategy_last | Strategy_random | Strategy_ruleset

datatype PickMode = Pick_first | Pick_last | Pick_random

datatype MultiMode = Mode_first_n | Mode_all | Mode_random_n

text \<open>
  \<open>RulesetConfig\<close>. Every optional field is an \<open>option\<close>; \<open>byKeyword\<close> is the list of
  its entries in the order \<open>Object.entries\<close> enumerates them; the source's field \<open>text\<close>
  is \<open>textRules\<close> here, \<open>text.default\<close> is \<open>defaultText\<close> and \<open>multiSelect.n\<close> is
  \<open>ms_n\<close>, a number of the source language.
\<close>

record MultiSelect =
  mode :: MultiMode
  ms_n :: "JsNumber option"

record TextRules =
  defaultText :: "string option"
  byKeyword :: "(string \<times> string) list option"

record RulesetConfig =
  singleSelect :: "PickMode option"
  multiSelect :: "MultiSelect option"
  textRules :: "TextRules option"


section \<open>Deterministic strategy engine (strategy.ts)\<close>

text \<open>
  \<open>seededIndex\<close>: \<open>hash = (hash * 31 + seed.charCodeAt(index)) >>> 0\<close> over the seed, then
  \<open>hash % length\<close>. The product stays below \<open>2 ^ 53\<close>, so the double arithmetic is exact
  and \<open>>>> 0\<close> is the remainder modulo \<open>2 ^ 32\<close>.
\<close>

definition hashStep :: "nat \<Rightarrow> char \<Rightarrow> nat" where
  "hashStep hash c = (hash * 31 + of_char c) mod 2 ^ 32"

definition seededIndex :: "string \<Rightarrow> nat \<Rightarrow> nat" where
  "seededIndex seed len =
     (let hash = foldl hashStep 0 seed
      in if len = 0 then 0 else hash mod len)"

definition pickByMode :: "string list \<Rightarrow> PickMode \<Rightarrow> string \<Rightarrow> string" where
  "pickByMode labels m seed =
     (if length labels = 0 then []
      else if m = Pick_first then at_or_empty labels 0
      else if m = Pick_last then at_or_empty labels (length labels - 1)
      else at_or_empty labels (seededIndex seed (length labels)))"

text \<open>The haystack of \<open>chooseTextByRuleset\<close>: question text, a space, the support texts.\<close>

definition textHaystack :: "QuestionState \<Rightarrow> string" where
  "textHaystack state =
     toLowerCase (questionText state @ '' '' @ join '' '' (supportText state))"

text \<open>
  \<open>ruleset?.text?.default ?? fallback\<close> and the entries of
  \<open>ruleset?.text?.byKeyword ?? {}\<close>.
\<close>

definition textDefault :: "RulesetConfig option \<Rightarrow> string \<Rightarrow> string" where
  "textDefault ruleset fallback =
     (case Option.bind (Option.bind ruleset textRules) defaultText of
        Some d \<Rightarrow> d | None \<Rightarrow> fallback)"

definition textKeywords :: "RulesetConfig option \<Rightarrow> (string \<times> string) list" where
  "textKeywords ruleset =
     (case Option.bind (Option.bind ruleset textRules) byKeyword of
        Some kw \<Rightarrow> kw | None \<Rightarrow> [])"

definition chooseTextByRuleset :: "QuestionState \<Rightarrow> RulesetConfig option \<Rightarrow> string \<Rightarrow> string" where
  "chooseTextByRuleset state ruleset fallback =
     (let defaultValue = textDefault ruleset fallback;
          keywords = textKeywords ruleset;
          haystack = textHaystack state;
          entry = find (\<lambda>(keyword, _). str_includes haystack (toLowerCase keyword)) keywords
      in case entry of Some (_, v) \<Rightarrow> v | None \<Rightarrow> defaultValue)"

text \<open>The default of the third parameter of \<open>chooseTextByRuleset\<close>.\<close>

definition AUTO_TEST_RESPONSE :: string where
  "AUTO_TEST_RESPONSE = ''AUTO_TEST_RESPONSE''"

text \<open>
  The \<open>random_n\<close> loop of \<open>deterministicSelection\<close>,
  \<open>while (chosen.length > 0 && result.length < n)\<close>: \<open>chosen\<close> is the shrinking pool,
  \<open>result\<close> the labels picked so far and \<open>k\<close> the number \<open>n\<close>; an empty label is removed
  from the pool and not pushed.
\<close>

function random_n_loop :: "string \<Rightarrow> JsNumber \<Rightarrow> string list \<Rightarrow> string list \<Rightarrow> string list" where
  "random_n_loop seed k chosen result =
     (if length chosen > 0 \<and> lessThanNumber (length result) k then
        (let idx = seededIndex (seed @ '':'' @ numberToString (length result)) (length chosen);
             lbl = at_or_empty chosen idx;
             chosen' = splice_out chosen idx
         in random_n_loop seed k chosen' (if lbl \<noteq> [] then result @ [lbl] else result))
      else result)"
  by pat_completeness auto
termination
proof (relation "measure (\<lambda>(seed, k, chosen, result). length chosen)", goal_cases)
  case 1
  show ?case by simp
next
  case (2 seed k chosen result idx lbl chosen')
  then have "idx < length chosen"
    by (simp add: seededIndex_def Let_def)
  with 2 show ?case
    by (simp add: splice_out_def)
qed

declare random_n_loop.simps [simp del]

text \<open>
  The two settings that the multi-select branch of \<open>deterministicSelection\<close> reads:
  \<open>ruleset?.multiSelect?.mode ?? 'first_n'\<close> and
  \<open>Math.max(1, ruleset?.multiSelect?.n ?? 2)\<close>.
\<close>

definition multiSelectMode :: "RulesetConfig option \<Rightarrow> MultiMode" where
  "multiSelectMode ruleset =
     (case Option.bind ruleset multiSelect of Some ms \<Rightarrow> mode ms | None \<Rightarrow> Mode_first_n)"

definition configuredCount :: "RulesetConfig option \<Rightarrow> JsNumber option" where
  "configuredCount ruleset = Option.bind (Option.bind ruleset multiSelect) ms_n"

definition multiSelectCount :: "RulesetConfig option \<Rightarrow> JsNumber" where
  "multiSelectCount ruleset =
     Math_max (Num 1) (case configuredCount ruleset of Some v \<Rightarrow> v | None \<Rightarrow> Num 2)"

definition deterministicSelection ::
  "QuestionState \<Rightarrow> AnswerStrategy \<Rightarrow> RulesetConfig option \<Rightarrow> string \<Rightarrow> string list" where
  "deterministicSelection state strategy ruleset runId =
     (let labels = map label (options state);
          seed = runId @ '':'' @ questionText state
      in if length labels = 0 then []
         else if strategy \<noteq> Strategy_ruleset then
           (let m = (if strategy = Strategy_first then Pick_first
                     else if strategy = Strategy_last then Pick_last else Pick_random)
            in if inputType state = multi_select then
                 (let picked = pickByMode labels m seed
                  in if picked \<noteq> [] then [picked] else [])
               else filter (\<lambda>l. l \<noteq> []) [pickByMode labels m seed])
         else if inputType state = multi_select then
           (let md = multiSelectMode ruleset;
                k = multiSelectCount ruleset
            in if md = Mode_all then labels
               else if md = Mode_random_n then random_n_loop seed k labels []
               else sliceFromStart labels k)
         else
           (let singleMode = (case Option.bind ruleset singleSelect of
                                Some sm \<Rightarrow> sm | None \<Rightarrow> Pick_first)
            in filter (\<lambda>l. l \<noteq> []) [pickByMode labels singleMode seed]))"


section \<open>Question-state extractor (extractor/question-state.ts)\<close>

definition isValidSurveySurface :: "QuestionState \<Rightarrow> bool" where
  "isValidSurveySurface st =
     (if visibleInputCount st > 0 then True
      else length (navigationButtons st) > 0)"

definition stateFingerprint :: "QuestionState \<Rightarrow> string" where
  "stateFingerprint st =
     questionText st @ ''|'' @ (case progress st of Some p \<Rightarrow> p | None \<Rightarrow> [])
     @ ''|'' @ join '','' (map (\<lambda>opt. label opt @ '':'' @ (if selected opt then ''1'' else ''0''))
                             (options st))
     @ ''|'' @ filledValue st"

text \<open>
  \<open>clean\<close>: \<open>value.replace(/\s+/g, ' ').trim()\<close>. On the modelled range the white
  space characters are 9 to 13, 32 and 160.
\<close>

definition isSpace :: "char \<Rightarrow> bool" where
  "isSpace c = (let k = (of_char c :: nat) in (9 \<le> k \<and> k \<le> 13) \<or> k = 32 \<or> k = 160)"

function collapseSpaces :: "string \<Rightarrow> string" where
  "collapseSpaces [] = []"
| "collapseSpaces (c # cs) =
     (if isSpace c then CHR '' '' # collapseSpaces (dropWhile isSpace cs)
      else c # collapseSpaces cs)"
  by pat_completeness auto
termination
  by (relation "measure length") (auto simp: length_dropWhile_le less_Suc_eq_le)

definition trim :: "string \<Rightarrow> string" where
  "trim s = rev (dropWhile isSpace (rev (dropWhile isSpace s)))"

definition clean :: "string \<Rightarrow> string" where
  "clean v = trim (collapseSpaces v)"

text \<open>
  A regular expression \<open>/\b(w1|w2|...)\b/\<close> whose alternatives are non-empty words of
  word characters: some alternative starts at a position not preceded by a word
  character and is not followed by one. \<open>prevWord\<close> says whether the character before
  the current position is a word character.
\<close>

definition isWordChar :: "char \<Rightarrow> bool" where
  "isWordChar c =
     (let k = (of_char c :: nat)
      in (48 \<le> k \<and> k \<le> 57) \<or> (65 \<le> k \<and> k \<le> 90) \<or> k = 95 \<or> (97 \<le> k \<and> k \<le> 122))"

fun wordRegexTest :: "string list \<Rightarrow> bool \<Rightarrow> string \<Rightarrow> bool" where
  "wordRegexTest ws prevWord [] = False"
| "wordRegexTest ws prevWord (c # cs) =
     ((\<not> prevWord \<and>
       list_ex (\<lambda>w. prefix w (c # cs) \<and>
                     (case drop (length w) (c # cs) of [] \<Rightarrow> True | d # _ \<Rightarrow> \<not> isWordChar d)) ws)
      \<or> wordRegexTest ws (isWordChar c) cs)"

text \<open>
  \<open>NAVIGATION_LABEL.test(label)\<close>; the flag \<open>i\<close> compares the ASCII letters of the
  pattern without case, which on the modelled range is a match on the lowered label.
\<close>

definition NAVIGATION_LABEL :: "string \<Rightarrow> bool" where
  "NAVIGATION_LABEL lbl =
     wordRegexTest [''next'', ''continue'', ''ok'', ''submit'', ''done'', ''finish'', ''start'',
                    ''send'', ''complete'', ''previous'', ''back''] False (toLowerCase lbl)"

text \<open>
  What the queries of one surface (a page or a frame) return. For an element,
  \<open>isVisible\<close> and \<open>isSelected\<close> are \<open>None\<close> when the read throws (a detached node), and
  \<open>elementLabel\<close> is what the source's \<open>elementLabel\<close> computes for it (empty when it has
  none). Reads that the source does not guard are taken to return.
\<close>

record Element =
  isVisible :: "bool option"
  elementLabel :: string
  isSelected :: "bool option"

record Textbox =
  tbVisible :: bool
  tbValue :: "string option"

record Surface =
  headingElements :: "Element list"
  legendElements :: "(bool \<times> string) list"
  buttonElements :: "Element list"
  radioElements :: "Element list"
  checkboxElements :: "Element list"
  textboxElements :: "Textbox list"
  progressbarElements :: "Element list"
  bodyProgressText :: string
  surfaceUrl :: string

definition visibleLabelsForRole :: "Element list \<Rightarrow> string list" where
  "visibleLabelsForRole items =
     map elementLabel (filter (\<lambda>e. isVisible e = Some True \<and> elementLabel e \<noteq> []) items)"

text \<open>
  \<open>Map<string, SurveyOption>\<close> as the list of its entries in insertion order: \<open>set\<close> on
  a present key replaces the value in place, on a new key appends.
\<close>

fun mapSet :: "(string \<times> SurveyOption) list \<Rightarrow> string \<Rightarrow> SurveyOption \<Rightarrow> (string \<times> SurveyOption) list" where
  "mapSet [] k v = [(k, v)]"
| "mapSet ((k', v') # m) k v = (if k' = k then (k, v) # m else (k', v') # mapSet m k v)"

definition mapHas :: "(string \<times> SurveyOption) list \<Rightarrow> string \<Rightarrow> bool" where
  "mapHas m k = list_ex (\<lambda>(k', _). k' = k) m"

definition readOptionsFromRole ::
  "Element list \<Rightarrow> (string \<times> SurveyOption) list \<Rightarrow> (string \<times> SurveyOption) list" where
  "readOptionsFromRole items existing =
     foldl (\<lambda>m e.
        if isVisible e \<noteq> Some True then m
        else if elementLabel e = [] then m
        else (case isSelected e of
                None \<Rightarrow> m
              | Some b \<Rightarrow> mapSet m (elementLabel e) \<lparr>label = elementLabel e, selected = b\<rparr>))
       existing items"

definition readOptionButtons ::
  "Element list \<Rightarrow> (string \<times> SurveyOption) list \<Rightarrow> (string \<times> SurveyOption) list" where
  "readOptionButtons buttons existing =
     foldl (\<lambda>m e.
        if isVisible e \<noteq> Some True then m
        else if elementLabel e = [] \<or> NAVIGATION_LABEL (elementLabel e) then m
        else (case isSelected e of
                None \<Rightarrow> m
              | Some b \<Rightarrow>
                  if \<not> mapHas m (elementLabel e)
                  then mapSet m (elementLabel e) \<lparr>label = elementLabel e, selected = b\<rparr>
                  else m))
       existing buttons"

definition detectProgress :: "Element list \<Rightarrow> string \<Rightarrow> string option" where
  "detectProgress progressbars maybeProgressText =
     (case find (\<lambda>e. isVisible e = Some True \<and> elementLabel e \<noteq> []) progressbars of
        Some e \<Rightarrow> Some (elementLabel e)
      | None \<Rightarrow> (let t = clean maybeProgressText in if t = [] then None else Some t))"

definition readFilledText :: "Textbox list \<Rightarrow> string" where
  "readFilledText textboxes =
     (case find (\<lambda>t. tbVisible t \<and> (case tbValue t of None \<Rightarrow> False | Some v \<Rightarrow> clean v \<noteq> []))
             textboxes of
        Some t \<Rightarrow> (case tbValue t of Some v \<Rightarrow> clean v | None \<Rightarrow> [])
      | None \<Rightarrow> [])"

text \<open>\<open>[...new Set(xs)]\<close>: the first occurrence of every element, in order.\<close>

fun dedupe :: "string list \<Rightarrow> string list" where
  "dedupe [] = []"
| "dedupe (x # xs) = x # dedupe (filter (\<lambda>y. y \<noteq> x) xs)"

text \<open>
  The derivation of \<open>inputType\<close> in \<open>extractFromContext\<close>: three assignments in the
  source's order, then the yes/no case on the lowered keys of the options map.
\<close>

definition deriveInputType :: "nat \<Rightarrow> nat \<Rightarrow> nat \<Rightarrow> string list \<Rightarrow> InputType" where
  "deriveInputType radioCount checkboxCount visibleTextInputCount optionKeys =
     (let t0 = unknown;
          t1 = (if radioCount > 0 \<and> checkboxCount = 0 then single_select else t0);
          t2 = (if checkboxCount > 0 then multi_select else t1);
          t3 = (if visibleTextInputCount > 0 then text_input else t2);
          optionLabels = map toLowerCase optionKeys
      in if length optionLabels = 2 \<and> ''yes'' \<in> set optionLabels \<and> ''no'' \<in> set optionLabels
         then yes_no else t3)"

definition extractFromContext :: "Surface \<Rightarrow> QuestionState" where
  "extractFromContext target =
     (let headings0 = visibleLabelsForRole (headingElements target);
          headings = (if length headings0 = 0
                      then map (\<lambda>(v, t). trim t) (filter (\<lambda>(v, t). v) (legendElements target))
                      else headings0);
          rawButtons = visibleLabelsForRole (buttonElements target);
          navButtons = dedupe (filter NAVIGATION_LABEL rawButtons);
          optionsMap = readOptionButtons (buttonElements target)
                         (readOptionsFromRole (checkboxElements target)
                            (readOptionsFromRole (radioElements target) []));
          visibleTextInputCount = length (filter tbVisible (textboxElements target));
          radioCount = length (radioElements target);
          checkboxCount = length (checkboxElements target);
          derived = deriveInputType radioCount checkboxCount visibleTextInputCount
                      (map fst optionsMap)
      in \<lparr>questionText =
            (case headings of
               h # _ \<Rightarrow> h
             | [] \<Rightarrow> (if length optionsMap > 0 then ''Please answer this question''
                      else ''Survey step'')),
          supportText = take 2 (drop 1 headings),
          inputType = derived,
          options = map snd optionsMap,
          filledValue = readFilledText (textboxElements target),
          navigationButtons = navButtons,
          progress = detectProgress (progressbarElements target) (bodyProgressText target),
          visibleInputCount = visibleTextInputCount + radioCount + checkboxCount + length optionsMap,
          url = surfaceUrl target\<rparr>)"

text \<open>
  \<open>extractQuestionState\<close>: the main surface first; when it is not valid and the context
  is a page, the first valid snapshot among its other frames in order (a frame whose
  extraction throws, \<open>None\<close>, is skipped), else the main snapshot.
\<close>

datatype Context = PageContext Surface "Surface option list" | FrameContext Surface

fun firstValidFrame :: "Surface option list \<Rightarrow> QuestionState option" where
  "firstValidFrame [] = None"
| "firstValidFrame (None # frames) = firstValidFrame frames"
| "firstValidFrame (Some f # frames) =
     (let frameState = extractFromContext f
      in if isValidSurveySurface frameState then Some frameState else firstValidFrame frames)"

fun extractQuestionState :: "Context \<Rightarrow> QuestionState" where
  "extractQuestionState (FrameContext target) = extractFromContext target"
| "extractQuestionState (PageContext target frames) =
     (let st = extractFromContext target
      in if isValidSurveySurface st then st
         else (case firstValidFrame frames of Some frameState \<Rightarrow> frameState | None \<Rightarrow> st))"


section \<open>Action executor (executor/actions.ts)\<close>

datatype Action =
  select_single | select_multi | type_text | click_next | click_submit | cannot_proceed

text \<open>
  \<open>Decision\<close>: \<open>selections\<close> holds the labels of the \<open>{label}\<close> objects and the source's
  field \<open>text\<close> is \<open>typedText\<close>.
\<close>

record Decision =
  action :: Action
  selections :: "string list"
  typedText :: string
  confidence :: real
  reason :: string
  needs_screenshot :: bool
  assertions :: "string list"

text \<open>
  What the browser does during one call of \<open>executeDecision\<close>: for each attempt either
  an exception or the result of the click or fill and of \<open>verifyTextFilled\<close>; the
  snapshots that \<open>waitForProgress\<close> extracts before its timeout, one per tick, and the
  one it extracts after the timeout. In the result of \<open>executeDecision\<close> the fields
  \<open>actionSucceeded\<close>, \<open>progressed\<close>, \<open>assertionsPassed\<close> and \<open>assertionsFailed\<close> are
  \<open>execSucceeded\<close>, \<open>execProgressed\<close>, \<open>execPassed\<close> and \<open>execFailed\<close> here; the
  source's names are those of the fields of \<open>StepResult\<close>.
\<close>

datatype Attempt = AttemptThrows | AttemptReturns bool bool

record Browser =
  attempts :: "nat \<Rightarrow> Attempt"
  polledStates :: "QuestionState list"
  timeoutState :: QuestionState

record Execution =
  execSucceeded :: bool
  execProgressed :: bool
  afterState :: QuestionState
  execPassed :: "string list"
  execFailed :: "string list"

fun waitForProgress :: "QuestionState \<Rightarrow> QuestionState list \<Rightarrow> QuestionState \<Rightarrow> bool \<times> QuestionState" where
  "waitForProgress beforeState [] finalState = (False, finalState)"
| "waitForProgress beforeState (st # rest) finalState =
     (if stateFingerprint st \<noteq> stateFingerprint beforeState \<and> isValidSurveySurface st
      then (True, st)
      else waitForProgress beforeState rest finalState)"

definition checkAssertion :: "string \<Rightarrow> QuestionState \<Rightarrow> bool" where
  "checkAssertion assertion st =
     (let haystack = toLowerCase
            (questionText st @ '' '' @ join '' '' (supportText st) @ '' ''
             @ join '' '' (map label (filter selected (options st))) @ '' '' @ filledValue st)
      in str_includes haystack (toLowerCase assertion))"

text \<open>
  \<open>perform\<close>: a selection without a label and an empty multi-selection fail without
  touching the browser; \<open>cannot_proceed\<close> returns true; otherwise the browser's result.
\<close>

definition perform :: "Decision \<Rightarrow> bool \<Rightarrow> bool" where
  "perform dec browserResult =
     (if action dec = select_single then
        (case selections dec of [] \<Rightarrow> False | l # _ \<Rightarrow> if l \<noteq> [] then browserResult else False)
      else if action dec = select_multi then
        (if length (selections dec) = 0 then False else browserResult)
      else if action dec = type_text then browserResult
      else if action dec = click_next then browserResult
      else if action dec = click_submit then browserResult
      else True)"

definition attemptOnce :: "Decision \<Rightarrow> Attempt \<Rightarrow> bool" where
  "attemptOnce dec a =
     (case a of
        AttemptThrows \<Rightarrow> False
      | AttemptReturns browserResult verified \<Rightarrow>
          (let ok = perform dec browserResult
           in if action dec = type_text \<and> ok then verified else ok))"

function retryLoop :: "Decision \<Rightarrow> (nat \<Rightarrow> Attempt) \<Rightarrow> nat \<Rightarrow> bool \<Rightarrow> bool" where
  "retryLoop dec atts attempt actionOk =
     (if attempt < 2 \<and> \<not> actionOk
      then retryLoop dec atts (attempt + 1) (attemptOnce dec (atts attempt))
      else actionOk)"
  by pat_completeness auto
termination
  by (relation "measure (\<lambda>(dec, atts, attempt, actionOk). 2 - attempt)") auto

declare retryLoop.simps [simp del]

definition executeDecision :: "QuestionState \<Rightarrow> Decision \<Rightarrow> Browser \<Rightarrow> Execution" where
  "executeDecision beforeState dec browser =
     (let actionOk = retryLoop dec (attempts browser) 0 False;
          (progressedNow, after) =
             waitForProgress beforeState (polledStates browser) (timeoutState browser);
          questionChanged = (questionText beforeState \<noteq> questionText after);
          selectedLabels = map (\<lambda>opt. toLowerCase (label opt)) (filter selected (options after));
          passed = (if \<not> questionChanged
                    then filter (\<lambda>a. checkAssertion a after) (assertions dec)
                    else [''Successfully navigated to next step.'']);
          failed = (if \<not> questionChanged
                    then filter (\<lambda>a. \<not> checkAssertion a after) (assertions dec)
                         @ (if action dec = select_single \<or> action dec = select_multi
                            then map (\<lambda>l. ''Selection not reflected: '' @ l)
                                   (filter (\<lambda>l. toLowerCase l \<notin> set selectedLabels) (selections dec))
                            else [])
                         @ (if action dec = type_text \<and> typedText dec \<noteq> []
                               \<and> \<not> str_includes (filledValue after) (typedText dec)
                            then [''Typed text is not visible in the input.'']
                            else [])
                    else [])
      in \<lparr>execSucceeded = actionOk, execProgressed = progressedNow, afterState = after,
          execPassed = passed, execFailed = failed\<rparr>)"


section \<open>Step engine (run-survey.ts)\<close>

datatype RunStatus = success | blocked | error | running

text \<open>
  \<open>StepResult\<close>; an artifact is the file name of its screenshot. Of \<open>RunSurveyInput\<close>
  the fields that the control flow reads; of \<open>RunReport\<close> the status, the message and
  the steps. The prompts, the events sent to the observer (taken not to throw), the time
  stamps, the video and the launch and shutdown of the browser are left out: the
  status, the message and the steps of the report do not depend on them.
\<close>

record StepResult =
  step :: nat
  state :: QuestionState
  decision :: Decision
  actionSucceeded :: bool
  progressed :: bool
  assertionsPassed :: "string list"
  assertionsFailed :: "string list"
  artifacts :: "string list"

record RunSurveyInput =
  runId :: string
  surveyUrl :: string
  strategy :: AnswerStrategy
  ruleset :: "RulesetConfig option"
  captureScreenshots :: bool
  completeSurvey :: bool
  maxSteps :: "nat option"

record RunReport =
  status :: RunStatus
  message :: string
  steps :: "StepResult list"

text \<open>
  The world outside the engine. A call either throws (with the message of the error,
  \<open>None\<close> when the thrown value is not an \<open>Error\<close>) or returns. Per step: the snapshot
  extracted at its start, the decision of the decision source (\<open>None\<close> when the
  request fails), the two screenshots and the browser during \<open>executeDecision\<close>.
  \<open>hostnameOf\<close> is \<open>new URL(u).hostname\<close>, \<open>None\<close> when the constructor throws.
\<close>

datatype 'a Outcome = Throws "string option" | Returns 'a

record StepEnv =
  extracted :: "QuestionState Outcome"
  llmDecision :: "Decision option"
  preActionShot :: "unit Outcome"
  extraShot :: "unit Outcome"
  executed :: "Browser Outcome"

record Env =
  gotoResult :: "unit Outcome"
  openingState :: "nat \<Rightarrow> QuestionState Outcome"
  invalidSurfaceShot :: "unit Outcome"
  stepEnv :: "nat \<Rightarrow> StepEnv"
  hostnameOf :: "string \<Rightarrow> string option"

definition fallbackDecision ::
  "string \<Rightarrow> QuestionState \<Rightarrow> AnswerStrategy \<Rightarrow> RulesetConfig option \<Rightarrow> Decision" where
  "fallbackDecision rid st strat rs =
     (if inputType st = text_input then
        \<lparr>action = type_text, selections = [],
         typedText = chooseTextByRuleset st rs AUTO_TEST_RESPONSE, confidence = 35 / 100,
         reason = ''Fallback strategy: typing deterministic text.'',
         needs_screenshot = False, assertions = []\<rparr>
      else
        (let single = (if inputType st = single_select \<or> inputType st = yes_no
                       then take 1 (deterministicSelection st strat rs rid) else [])
         in if length single > 0 then
              \<lparr>action = select_single, selections = single, typedText = [], confidence = 35 / 100,
               reason = ''Fallback strategy: choosing deterministic single option.'',
               needs_screenshot = False, assertions = []\<rparr>
            else
              (let multi = (if inputType st = multi_select
                            then deterministicSelection st strat rs rid else [])
               in if length multi > 0 then
                    \<lparr>action = select_multi, selections = multi, typedText = [],
                     confidence = 35 / 100,
                     reason = ''Fallback strategy: choosing deterministic multi options.'',
                     needs_screenshot = False, assertions = []\<rparr>
                  else if length (navigationButtons st) > 0 then
                    (let hasSubmit =
                           list_ex (\<lambda>button.
                              list_ex (\<lambda>w. str_includes (toLowerCase button) w)
                                [''submit'', ''finish'', ''done'', ''complete''])
                             (navigationButtons st)
                     in \<lparr>action = (if hasSubmit then click_submit else click_next),
                         selections = [], typedText = [], confidence = 3 / 10,
                         reason = ''Fallback strategy: continue navigation.'',
                         needs_screenshot = False, assertions = []\<rparr>)
                  else
                    \<lparr>action = cannot_proceed, selections = [], typedText = [],
                     confidence = 2 / 10, reason = ''Fallback strategy: no actionable UI.'',
                     needs_screenshot = True, assertions = []\<rparr>)))"

definition isCompletionLikely :: "QuestionState \<Rightarrow> bool" where
  "isCompletionLikely st =
     (let txt = toLowerCase (questionText st @ '' '' @ join '' '' (supportText st))
      in if list_ex (\<lambda>w. str_includes txt w)
              [''thank you'', ''thanks'', ''submitted'', ''successfully'', ''start again'']
         then True
         else if wordRegexTest [''completed'', ''finished''] False txt then True
         else False)"

definition isKnownSurveyProvider :: "string \<Rightarrow> bool" where
  "isKnownSurveyProvider hostname =
     list_ex (\<lambda>w. str_includes hostname w)
       [''typeform.com'', ''surveymonkey.com'', ''qualtrics.com'', ''google.com/forms'',
        ''forms.gle'']"

text \<open>
  The drift check of a step: the host the run has exited to, when the hosts differ, the
  current one is no known provider and the step is not the first.
\<close>

definition externalExit :: "Env \<Rightarrow> RunSurveyInput \<Rightarrow> QuestionState \<Rightarrow> nat \<Rightarrow> string option" where
  "externalExit env run st stepNo =
     (case hostnameOf env (url st) of
        None \<Rightarrow> None
      | Some currentHost \<Rightarrow>
          (case hostnameOf env (surveyUrl run) of
             None \<Rightarrow> None
           | Some originalHost \<Rightarrow>
               if currentHost \<noteq> originalHost then
                 (if isKnownSurveyProvider currentHost then None
                  else if stepNo > 1 then Some currentHost else None)
               else None))"

text \<open>\<open>step-NN-label.png\<close>, the file name that \<open>captureScreenshot\<close> writes.\<close>

definition screenshotName :: "string \<Rightarrow> nat \<Rightarrow> string" where
  "screenshotName lbl stepNo =
     (let digits = numberToString stepNo
      in ''step-'' @ replicate (2 - length digits) CHR ''0'' @ digits @ ''-'' @ lbl @ ''.png'')"

definition errorMessage :: "string option \<Rightarrow> string" where
  "errorMessage e = (case e of Some m \<Rightarrow> m | None \<Rightarrow> ''Unexpected runner error.'')"

text \<open>The \<open>catch\<close> of \<open>runSurvey\<close>: status \<open>error\<close>, the steps recorded so far stay.\<close>

definition caught :: "RunReport \<Rightarrow> string option \<Rightarrow> RunReport" where
  "caught rep e = rep\<lparr>status := error, message := errorMessage e\<rparr>"

definition maxStepsOf :: "RunSurveyInput \<Rightarrow> nat" where
  "maxStepsOf run = (case maxSteps run of Some m \<Rightarrow> m | None \<Rightarrow> 40)"

text \<open>
  How a step is marked: progress reported by the executor or a changed fingerprint,
  overridden by a failed assertion.
\<close>

definition markProgressed :: "QuestionState \<Rightarrow> Execution \<Rightarrow> bool" where
  "markProgressed st execution =
     (let beforeFingerprint = stateFingerprint st;
          afterFingerprint = stateFingerprint (afterState execution);
          progressed0 = (execProgressed execution \<or> afterFingerprint \<noteq> beforeFingerprint)
      in if length (execFailed execution) > 0 then False else progressed0)"

text \<open>
  One iteration of the loop of \<open>runSurvey\<close>, from the report and the count of stagnant
  steps so far: it either leaves the loop with the report of the run, or goes on.
\<close>

datatype Flow = Break RunReport | Continue RunReport nat

definition afterExecution ::
  "RunSurveyInput \<Rightarrow> StepEnv \<Rightarrow> nat \<Rightarrow> RunReport \<Rightarrow> nat \<Rightarrow> QuestionState \<Rightarrow> Decision \<Rightarrow>
   string list \<Rightarrow> Execution \<Rightarrow> Flow" where
  "afterExecution run se stepNo rep stagnant st dec arts execution =
     (let prog = markProgressed st execution;
          stagnant' = (if \<not> prog then stagnant + 1 else 0);
          stepResult = \<lparr>step = stepNo, state = st, decision = dec,
                        actionSucceeded = execSucceeded execution, progressed = prog,
                        assertionsPassed = execPassed execution,
                        assertionsFailed = execFailed execution, artifacts = arts\<rparr>;
          rep1 = rep\<lparr>steps := steps rep @ [stepResult]\<rparr>
      in if action dec = click_submit \<and> (isCompletionLikely (afterState execution) \<or> \<not> prog) then
           Break (rep1\<lparr>status := success, message := ''Survey submission step executed.''\<rparr>)
         else if isCompletionLikely (afterState execution) then
           Break (rep1\<lparr>status := success, message := ''Survey appears complete.''\<rparr>)
         else if stagnant' \<ge> 2 then
           (if \<not> captureScreenshots run then
              (case extraShot se of
                 Throws e \<Rightarrow> Break (caught rep1 e)
               | Returns _ \<Rightarrow>
                   Break (rep\<lparr>status := blocked,
                              message := ''Runner cannot progress after repeated attempts.'',
                              steps := steps rep @
                                [stepResult\<lparr>artifacts := arts @ [screenshotName ''stagnant'' stepNo]\<rparr>]\<rparr>))
            else
              Break (rep1\<lparr>status := blocked,
                          message := ''Runner cannot progress after repeated attempts.''\<rparr>))
         else if stepNo = maxStepsOf run then
           Continue (rep1\<lparr>status := blocked,
                          message := ''Stopped after reaching maxSteps (''
                                     @ numberToString (maxStepsOf run) @ '').''\<rparr>) stagnant'
         else Continue rep1 stagnant')"

definition decide :: "RunSurveyInput \<Rightarrow> StepEnv \<Rightarrow> QuestionState \<Rightarrow> Decision" where
  "decide run se st =
     (case llmDecision se of
        Some d \<Rightarrow> d
      | None \<Rightarrow> fallbackDecision (runId run) st (strategy run) (ruleset run))"

definition stepBody :: "RunSurveyInput \<Rightarrow> Env \<Rightarrow> nat \<Rightarrow> RunReport \<Rightarrow> nat \<Rightarrow> Flow" where
  "stepBody run env stepNo rep stagnant =
     (let se = stepEnv env stepNo
      in case extracted se of
           Throws e \<Rightarrow> Break (caught rep e)
         | Returns st \<Rightarrow>
             if isCompletionLikely st then
               Break (rep\<lparr>status := success,
                          message := ''Survey appears complete (detected completion text).''\<rparr>)
             else
               (case externalExit env run st stepNo of
                  Some host \<Rightarrow>
                    Break (rep\<lparr>status := success,
                               message := ''Survey exited to external domain: '' @ host\<rparr>)
                | None \<Rightarrow>
                    (let dec = decide run se st;
                         wantShot = (captureScreenshots run \<or> needs_screenshot dec)
                     in case (if wantShot then preActionShot se else Returns ()) of
                          Throws e \<Rightarrow> Break (caught rep e)
                        | Returns _ \<Rightarrow>
                            (let arts = (if wantShot then [screenshotName ''pre-action'' stepNo]
                                         else [])
                             in if \<not> completeSurvey run \<and> stepNo > 1 then
                                  Break (rep\<lparr>status := success,
                                             message := ''Stopped before completion because completeSurvey=false.''\<rparr>)
                                else if action dec = cannot_proceed then
                                  (case (if \<not> captureScreenshots run then extraShot se
                                         else Returns ()) of
                                     Throws e \<Rightarrow> Break (caught rep e)
                                   | Returns _ \<Rightarrow>
                                       Break (rep\<lparr>status := blocked,
                                         message := ''LLM reported cannot_proceed at step ''
                                                    @ numberToString stepNo @ ''.'',
                                         steps := steps rep @
                                           [\<lparr>step = stepNo, state = st, decision = dec,
                                             actionSucceeded = False, progressed = False,
                                             assertionsPassed = [],
                                             assertionsFailed = [''Cannot proceed.''],
                                             artifacts = arts @
                                               (if \<not> captureScreenshots run
                                                then [screenshotName ''cannot-proceed'' stepNo]
                                                else [])\<rparr>]\<rparr>))
                                else
                                  (case executed se of
                                     Throws e \<Rightarrow> Break (caught rep e)
                                   | Returns browser \<Rightarrow>
                                       afterExecution run se stepNo rep stagnant st dec arts
                                         (executeDecision st dec browser))))))"

function iterate :: "RunSurveyInput \<Rightarrow> Env \<Rightarrow> nat \<Rightarrow> RunReport \<Rightarrow> nat \<Rightarrow> RunReport" where
  "iterate run env stepNo rep stagnant =
     (if stepNo \<le> maxStepsOf run then
        (case stepBody run env stepNo rep stagnant of
           Break r \<Rightarrow> r
         | Continue r stagnant' \<Rightarrow> iterate run env (stepNo + 1) r stagnant')
      else rep)"
  by pat_completeness auto
termination
  by (relation "measure (\<lambda>(run, env, stepNo, rep, stagnant). maxStepsOf run + 1 - stepNo)") auto

declare iterate.simps [simp del]

text \<open>
  The opening phase: the first extraction and up to ten more, one per second, while the
  snapshot is not valid.
\<close>

function openingLoop :: "Env \<Rightarrow> QuestionState \<Rightarrow> nat \<Rightarrow> QuestionState Outcome" where
  "openingLoop env initialState retries =
     (if \<not> isValidSurveySurface initialState \<and> retries < 10 then
        (case openingState env (retries + 1) of
           Throws e \<Rightarrow> Throws e
         | Returns st \<Rightarrow> openingLoop env st (retries + 1))
      else Returns initialState)"
  by pat_completeness auto
termination
  by (relation "measure (\<lambda>(env, initialState, retries). 10 - retries)") auto

declare openingLoop.simps [simp del]

definition runSurvey :: "RunSurveyInput \<Rightarrow> Env \<Rightarrow> RunReport" where
  "runSurvey run env =
     (let rep0 = \<lparr>status = success, message = ''Survey run completed.'', steps = []\<rparr>
      in case gotoResult env of
           Throws e \<Rightarrow> caught rep0 e
         | Returns _ \<Rightarrow>
             (case openingState env 0 of
                Throws e \<Rightarrow> caught rep0 e
              | Returns first \<Rightarrow>
                  (case openingLoop env first 0 of
                     Throws e \<Rightarrow> caught rep0 e
                   | Returns initialState \<Rightarrow>
                       if \<not> isValidSurveySurface initialState then
                         (let rep1 = rep0\<lparr>status := blocked,
                                message := ''Survey page loaded but no visible question/input was detected.''\<rparr>
                          in if captureScreenshots run then
                               (case invalidSurfaceShot env of
                                  Throws e \<Rightarrow> caught rep1 e
                                | Returns _ \<Rightarrow> rep1)
                             else rep1)
                       else iterate run env 1 rep0 0)))"


section \<open>Request schema of the runner\<close>



section \<open>The specification's words\<close>

text \<open>
  The polynomial rolling hash of the specification, on 32 bits: the code units of the
  seed are the coefficients of a polynomial in 31, the first one with the highest power.
\<close>

definition rollingHash :: "string \<Rightarrow> nat" where
  "rollingHash seed =
     (\<Sum>i < length seed. of_char (seed ! i) * 31 ^ (length seed - 1 - i)) mod 2 ^ 32"

text \<open>
  The labels of a snapshot are unique and not empty: the extractor keys its options by
  label and skips an element without one.
\<close>

definition labelsWellFormed :: "QuestionState \<Rightarrow> bool" where
  "labelsWellFormed st =
     (distinct (map label (options st)) \<and> [] \<notin> set (map label (options st)))"


text \<open>
  A stagnant step, in the words of the stagnation guarantee: the step extracts a
  snapshot and executes its decision, the fingerprint after the execution equals the one
  before, and at least one assertion fails.
\<close>

definition stagnantStep :: "RunSurveyInput \<Rightarrow> StepEnv \<Rightarrow> bool" where
  "stagnantStep run se =
     (case extracted se of
        Throws _ \<Rightarrow> False
      | Returns st \<Rightarrow>
          (case executed se of
             Throws _ \<Rightarrow> False
           | Returns browser \<Rightarrow>
               stateFingerprint (afterState (executeDecision st (decide run se st) browser))
                 = stateFingerprint st
               \<and> execFailed (executeDecision st (decide run se st) browser) \<noteq> []))"

text \<open>
  A step that none of the other exits of the loop takes: no completion text before or
  after the action, no exit to an external domain, a decision that is neither
  \<open>cannot_proceed\<close> nor \<open>click_submit\<close>, and no screenshot, where one is taken, that
  throws.
\<close>

definition undisturbedStep :: "RunSurveyInput \<Rightarrow> Env \<Rightarrow> nat \<Rightarrow> bool" where
  "undisturbedStep run env stepNo =
     (case extracted (stepEnv env stepNo) of
        Throws _ \<Rightarrow> False
      | Returns st \<Rightarrow>
          \<not> isCompletionLikely st
          \<and> externalExit env run st stepNo = None
          \<and> action (decide run (stepEnv env stepNo) st) \<noteq> cannot_proceed
          \<and> action (decide run (stepEnv env stepNo) st) \<noteq> click_submit
          \<and> (captureScreenshots run \<or> needs_screenshot (decide run (stepEnv env stepNo) st) \<longrightarrow>
               preActionShot (stepEnv env stepNo) = Returns ())
          \<and> (\<not> captureScreenshots run \<longrightarrow> extraShot (stepEnv env stepNo) = Returns ())
          \<and> (case executed (stepEnv env stepNo) of
                Throws _ \<Rightarrow> False
              | Returns browser \<Rightarrow>
                  \<not> isCompletionLikely
                      (afterState (executeDecision st (decide run (stepEnv env stepNo) st) browser))))"

text \<open>
  How a recorded step is marked, in the words of the specification: a step of a
  \<open>cannot_proceed\<close> decision is not progressed and carries a failed assertion; any other
  recorded step was executed, and
  it is progressed exactly when no assertion failed and the executor reported progress
  or the fingerprint changed.
\<close>

definition markedAsSpecified :: "Env \<Rightarrow> StepResult \<Rightarrow> bool" where
  "markedAsSpecified env r =
     (if action (decision r) = cannot_proceed
      then \<not> progressed r \<and> assertionsFailed r \<noteq> []
      else (case executed (stepEnv env (step r)) of
              Throws _ \<Rightarrow> False
            | Returns browser \<Rightarrow>
                assertionsFailed r = execFailed (executeDecision (state r) (decision r) browser)
                \<and> progressed r =
                    (execFailed (executeDecision (state r) (decision r) browser) = []
                     \<and> (execProgressed (executeDecision (state r) (decision r) browser)
                        \<or> stateFingerprint
                             (afterState (executeDecision (state r) (decision r) browser))
                           \<noteq> stateFingerprint (state r)))))"


section \<open>Invariants used in the proofs\<close>

text \<open>The options map is keyed by the label of each entry, and no key is empty.\<close>

definition keyedByLabel :: "(string \<times> SurveyOption) list \<Rightarrow> bool" where
  "keyedByLabel m =
     (distinct (map fst m) \<and> (\<forall>kv \<in> set m. label (snd kv) = fst kv \<and> fst kv \<noteq> []))"


section \<open>Concrete inputs\<close>

text \<open>Snapshots, rulesets and runs at which the theorems below are evaluated.\<close>

definition agreeState :: QuestionState where
  "agreeState =
     \<lparr>questionText = ''Agree?'', supportText = [], inputType = yes_no,
      options = [\<lparr>label = ''Yes'', selected = False\<rparr>, \<lparr>label = ''No'', selected = False\<rparr>],
      filledValue = [], navigationButtons = [''Next''], progress = None,
      visibleInputCount = 4, url = ''https://survey.example/q''\<rparr>"

definition agreeStateElsewhere :: QuestionState where
  "agreeStateElsewhere =
     \<lparr>questionText = ''Agree?'', supportText = [''Step 1''], inputType = single_select,
      options = [\<lparr>label = ''Yes'', selected = False\<rparr>, \<lparr>label = ''No'', selected = False\<rparr>],
      filledValue = [], navigationButtons = [], progress = None,
      visibleInputCount = 2, url = ''https://other.example/frame''\<rparr>"

definition fiveOptions :: QuestionState where
  "fiveOptions =
     \<lparr>questionText = ''Pick'', supportText = [], inputType = multi_select,
      options = [\<lparr>label = ''a'', selected = False\<rparr>, \<lparr>label = ''b'', selected = False\<rparr>,
                 \<lparr>label = ''c'', selected = False\<rparr>, \<lparr>label = ''d'', selected = False\<rparr>,
                 \<lparr>label = ''e'', selected = False\<rparr>],
      filledValue = [], navigationButtons = [''Next''], progress = None,
      visibleInputCount = 10, url = ''https://survey.example/q''\<rparr>"

definition fiveOptionsElsewhere :: QuestionState where
  "fiveOptionsElsewhere =
     \<lparr>questionText = ''Pick'', supportText = [''Choose any''], inputType = multi_select,
      options = [\<lparr>label = ''a'', selected = True\<rparr>, \<lparr>label = ''b'', selected = False\<rparr>,
                 \<lparr>label = ''c'', selected = True\<rparr>, \<lparr>label = ''d'', selected = False\<rparr>,
                 \<lparr>label = ''e'', selected = False\<rparr>],
      filledValue = ''x'', navigationButtons = [], progress = Some ''50%'',
      visibleInputCount = 5, url = ''https://other.example/frame''\<rparr>"


definition contactState :: QuestionState where
  "contactState =
     \<lparr>questionText = ''Contact'', supportText = [''Your Email''], inputType = text_input,
      options = [], filledValue = [], navigationButtons = [''Next''], progress = None,
      visibleInputCount = 1, url = ''https://survey.example/q''\<rparr>"

definition emailState :: QuestionState where
  "emailState =
     \<lparr>questionText = ''Your Email address'', supportText = [], inputType = text_input,
      options = [], filledValue = [], navigationButtons = [''Next''], progress = None,
      visibleInputCount = 1, url = ''https://survey.example/q''\<rparr>"

definition blankOption :: QuestionState where
  "blankOption =
     \<lparr>questionText = ''Pick'', supportText = [], inputType = multi_select,
      options = [\<lparr>label = [], selected = False\<rparr>],
      filledValue = [], navigationButtons = [''Next''], progress = None,
      visibleInputCount = 2, url = ''https://survey.example/q''\<rparr>"

definition blankAndB :: QuestionState where
  "blankAndB =
     \<lparr>questionText = ''Pick'', supportText = [], inputType = multi_select,
      options = [\<lparr>label = [], selected = False\<rparr>, \<lparr>label = ''b'', selected = False\<rparr>],
      filledValue = [], navigationButtons = [''Next''], progress = None,
      visibleInputCount = 4, url = ''https://survey.example/q''\<rparr>"

definition twiceA :: QuestionState where
  "twiceA =
     \<lparr>questionText = ''Pick'', supportText = [], inputType = multi_select,
      options = [\<lparr>label = ''a'', selected = False\<rparr>, \<lparr>label = ''a'', selected = True\<rparr>],
      filledValue = [], navigationButtons = [''Next''], progress = None,
      visibleInputCount = 4, url = ''https://survey.example/q''\<rparr>"

definition multiRuleset :: "MultiMode \<Rightarrow> JsNumber \<Rightarrow> RulesetConfig option" where
  "multiRuleset md k =
     Some \<lparr>singleSelect = None, multiSelect = Some \<lparr>mode = md, ms_n = Some k\<rparr>,
           textRules = None\<rparr>"

definition emailRuleset :: "RulesetConfig option" where
  "emailRuleset =
     Some \<lparr>singleSelect = None, multiSelect = None,
           textRules = Some \<lparr>defaultText = Some ''N/A'',
                             byKeyword = Some [(''email'', ''a@b.com'')]\<rparr>\<rparr>"

definition selectYes :: Decision where
  "selectYes =
     \<lparr>action = select_single, selections = [''Yes''], typedText = [], confidence = 9 / 10,
      reason = ''first option'', needs_screenshot = False, assertions = []\<rparr>"

definition submitNow :: Decision where
  "submitNow =
     \<lparr>action = click_submit, selections = [], typedText = [], confidence = 9 / 10,
      reason = ''submit'', needs_screenshot = False, assertions = [''Submitted'']\<rparr>"

text \<open>A browser in which every click lands and the page stays as it is.\<close>

definition stuckBrowser :: Browser where
  "stuckBrowser =
     \<lparr>attempts = (\<lambda>_. AttemptReturns True True), polledStates = [agreeState, agreeState],
      timeoutState = agreeState\<rparr>"

definition stuckStep :: "Decision \<Rightarrow> StepEnv" where
  "stuckStep d =
     \<lparr>extracted = Returns agreeState, llmDecision = Some d, preActionShot = Returns (),
      extraShot = Returns (), executed = Returns stuckBrowser\<rparr>"

definition stuckEnv :: "Decision \<Rightarrow> Env" where
  "stuckEnv d =
     \<lparr>gotoResult = Returns (), openingState = (\<lambda>_. Returns agreeState),
      invalidSurfaceShot = Returns (), stepEnv = (\<lambda>_. stuckStep d),
      hostnameOf = (\<lambda>_. Some ''survey.example'')\<rparr>"

definition defaultRun :: RunSurveyInput where
  "defaultRun =
     \<lparr>runId = ''run-1'', surveyUrl = ''https://survey.example/q'', strategy = Strategy_first,
      ruleset = None, captureScreenshots = False, completeSurvey = True, maxSteps = None\<rparr>"

text \<open>A surface with a checkbox, a radio button and no visible text input.\<close>

definition mixedSurface :: Surface where
  "mixedSurface =
     \<lparr>headingElements = [\<lparr>isVisible = Some True, elementLabel = ''Toppings'', isSelected = None\<rparr>],
      legendElements = [],
      buttonElements = [\<lparr>isVisible = Some True, elementLabel = ''Next'', isSelected = Some False\<rparr>],
      radioElements = [\<lparr>isVisible = Some True, elementLabel = ''Ham'', isSelected = Some False\<rparr>],
      checkboxElements = [\<lparr>isVisible = Some True, elementLabel = ''Ham'', isSelected = Some True\<rparr>,
                          \<lparr>isVisible = Some True, elementLabel = ''Olives'', isSelected = Some False\<rparr>],
      textboxElements = [\<lparr>tbVisible = False, tbValue = Some ''hidden''\<rparr>],
      progressbarElements = [], bodyProgressText = ''2 of 5'',
      surfaceUrl = ''https://survey.example/q''\<rparr>"


text \<open>A surface with two radio buttons labelled Yes and No and a visible text input.\<close>

definition yesNoSurface :: Surface where
  "yesNoSurface =
     \<lparr>headingElements = [\<lparr>isVisible = Some True, elementLabel = ''Agree?'', isSelected = None\<rparr>],
      legendElements = [],
      buttonElements = [\<lparr>isVisible = Some True, elementLabel = ''Next'', isSelected = Some False\<rparr>],
      radioElements = [\<lparr>isVisible = Some True, elementLabel = ''Yes'', isSelected = Some False\<rparr>,
                       \<lparr>isVisible = Some True, elementLabel = ''NO'', isSelected = Some False\<rparr>],
      checkboxElements = [],
      textboxElements = [\<lparr>tbVisible = True, tbValue = Some []\<rparr>],
      progressbarElements = [], bodyProgressText = [],
      surfaceUrl = ''https://survey.example/q''\<rparr>"


section \<open>Lemmas on the strategy engine\<close>

lemma seededIndex_less: "0 < len \<Longrightarrow> seededIndex seed len < len"
  by (simp add: seededIndex_def Let_def)

lemma mset_filter_splice_out:
  assumes "i < length xs"
  shows "mset (filter P xs) =
         mset (filter P (splice_out xs i)) + (if P (xs ! i) then {#xs ! i#} else {#})"
proof -
  have "filter P xs = filter P (take i xs @ xs ! i # drop (Suc i) xs)"
    using id_take_nth_drop [OF assms] by simp
  then show ?thesis
    by (simp add: splice_out_def)
qed

lemma length_filter_splice_out:
  assumes "i < length xs"
  shows "length (filter P xs) =
         length (filter P (splice_out xs i)) + (if P (xs ! i) then 1 else 0)"
proof -
  have "filter P xs = filter P (take i xs @ xs ! i # drop (Suc i) xs)"
    using id_take_nth_drop [OF assms] by simp
  then show ?thesis
    by (simp add: splice_out_def)
qed

lemma random_n_loop_stop:
  "\<not> (length chosen > 0 \<and> lessThanNumber (length result) k) \<Longrightarrow>
   random_n_loop seed k chosen result = result"
  by (subst random_n_loop.simps) auto

lemma random_n_loop_step:
  "length chosen > 0 \<Longrightarrow> lessThanNumber (length result) k \<Longrightarrow>
   random_n_loop seed k chosen result =
     (let idx = seededIndex (seed @ '':'' @ numberToString (length result)) (length chosen);
          lbl = at_or_empty chosen idx
      in random_n_loop seed k (splice_out chosen idx)
           (if lbl \<noteq> [] then result @ [lbl] else result))"
  by (subst random_n_loop.simps) (simp add: Let_def)

lemma random_n_loop_mset:
  "mset (random_n_loop seed k chosen result) \<subseteq>#
   mset result + mset (filter (\<lambda>l. l \<noteq> []) chosen)"
proof (induction seed k chosen result rule: random_n_loop.induct)
  case (1 seed k chosen result)
  show ?case
  proof (cases "length chosen > 0 \<and> lessThanNumber (length result) k")
    case False
    then show ?thesis
      by (simp add: random_n_loop_stop)
  next
    case True
    define idx where "idx = seededIndex (seed @ '':'' @ numberToString (length result)) (length chosen)"
    define lbl where "lbl = at_or_empty chosen idx"
    define chosen' where "chosen' = splice_out chosen idx"
    define result' where "result' = (if lbl \<noteq> [] then result @ [lbl] else result)"
    have idx: "idx < length chosen"
      using True by (simp add: idx_def seededIndex_less)
    have lbl: "lbl = chosen ! idx"
      using idx by (simp add: lbl_def at_or_empty_def)
    have step: "random_n_loop seed k chosen result = random_n_loop seed k chosen' result'"
      using True
      by (simp add: random_n_loop_step Let_def idx_def lbl_def chosen'_def result'_def)
    have IH: "mset (random_n_loop seed k chosen' result') \<subseteq>#
              mset result' + mset (filter (\<lambda>l. l \<noteq> []) chosen')"
      using "1.IH" [OF True idx_def lbl_def chosen'_def] by (simp add: result'_def)
    have "mset result' + mset (filter (\<lambda>l. l \<noteq> []) chosen') =
          mset result + mset (filter (\<lambda>l. l \<noteq> []) chosen)"
      using mset_filter_splice_out [OF idx, of "\<lambda>l. l \<noteq> []"]
      by (simp add: result'_def chosen'_def lbl)
    with IH step show ?thesis by simp
  qed
qed

lemma random_n_loop_pick:
  assumes "length chosen = len" and "numberToString (length result) = d"
    and "seededIndex (seed @ '':'' @ d) len = idx" and "idx < len"
    and "chosen ! idx = lbl" and "lbl \<noteq> []" and "lessThanNumber (length result) k"
  shows "random_n_loop seed k chosen result =
         random_n_loop seed k (splice_out chosen idx) (result @ [lbl])"
proof -
  have "length chosen > 0"
    using assms(1,4) by simp
  from random_n_loop_step [OF this assms(7), of seed] assms(1-6) show ?thesis
    by (simp add: Let_def at_or_empty_def)
qed

text \<open>
  The loop stops at the first length that is not below the count: when the condition
  \<open>result.length < n\<close> holds exactly of the lengths below \<open>m\<close>, it returns \<open>m\<close> labels, or
  every label that is not empty when they are fewer.
\<close>

lemma random_n_loop_length_limit:
  "(\<forall>len. lessThanNumber len k = (len < m)) \<Longrightarrow> length result \<le> m \<Longrightarrow>
   length (random_n_loop seed k chosen result) =
     min m (length result + length (filter (\<lambda>l. l \<noteq> []) chosen))"
proof (induction seed k chosen result rule: random_n_loop.induct)
  case (1 seed k chosen result)
  note lim = "1.prems"(1) and le0 = "1.prems"(2)
  show ?case
  proof (cases "length chosen > 0 \<and> lessThanNumber (length result) k")
    case False
    have stop: "random_n_loop seed k chosen result = result"
      using False by (rule random_n_loop_stop)
    show ?thesis
    proof (cases "chosen = []")
      case True
      with le0 stop show ?thesis
        by simp
    next
      case nonempty: False
      with False have "\<not> lessThanNumber (length result) k"
        by simp
      with lim have "\<not> length result < m"
        by blast
      with le0 stop show ?thesis
        by simp
    qed
  next
    case True
    define idx where "idx = seededIndex (seed @ '':'' @ numberToString (length result)) (length chosen)"
    define lbl where "lbl = at_or_empty chosen idx"
    define chosen' where "chosen' = splice_out chosen idx"
    define result' where "result' = (if lbl \<noteq> [] then result @ [lbl] else result)"
    have idx: "idx < length chosen"
      using True by (simp add: idx_def seededIndex_less)
    have lbl: "lbl = chosen ! idx"
      using idx by (simp add: lbl_def at_or_empty_def)
    have step: "random_n_loop seed k chosen result = random_n_loop seed k chosen' result'"
      using True
      by (simp add: random_n_loop_step Let_def idx_def lbl_def chosen'_def result'_def)
    have "length result < m"
      using True lim by blast
    then have le: "length result' \<le> m"
      by (simp add: result'_def)
    have IH: "length (random_n_loop seed k chosen' result') =
        min m (length result' + length (filter (\<lambda>l. l \<noteq> []) chosen'))"
      using "1.IH" [OF True idx_def lbl_def chosen'_def lim] le
      unfolding result'_def by simp
    have "length result' + length (filter (\<lambda>l. l \<noteq> []) chosen') =
          length result + length (filter (\<lambda>l. l \<noteq> []) chosen)"
      using length_filter_splice_out [OF idx, of "\<lambda>l. l \<noteq> []"]
      by (simp add: result'_def chosen'_def lbl)
    with IH step show ?thesis by simp
  qed
qed

lemma random_n_loop_length_unlimited:
  "(\<forall>len. lessThanNumber len k) \<Longrightarrow>
   length (random_n_loop seed k chosen result) =
     length result + length (filter (\<lambda>l. l \<noteq> []) chosen)"
proof (induction seed k chosen result rule: random_n_loop.induct)
  case (1 seed k chosen result)
  note lim = "1.prems"(1)
  show ?case
  proof (cases "length chosen > 0")
    case False
    then show ?thesis
      by (simp add: random_n_loop_stop)
  next
    case pos: True
    with lim have True: "length chosen > 0 \<and> lessThanNumber (length result) k"
      by simp
    define idx where "idx = seededIndex (seed @ '':'' @ numberToString (length result)) (length chosen)"
    define lbl where "lbl = at_or_empty chosen idx"
    define chosen' where "chosen' = splice_out chosen idx"
    define result' where "result' = (if lbl \<noteq> [] then result @ [lbl] else result)"
    have idx: "idx < length chosen"
      using True by (simp add: idx_def seededIndex_less)
    have lbl: "lbl = chosen ! idx"
      using idx by (simp add: lbl_def at_or_empty_def)
    have step: "random_n_loop seed k chosen result = random_n_loop seed k chosen' result'"
      using True
      by (simp add: random_n_loop_step Let_def idx_def lbl_def chosen'_def result'_def)
    have IH: "length (random_n_loop seed k chosen' result') =
        length result' + length (filter (\<lambda>l. l \<noteq> []) chosen')"
      using "1.IH" [OF True idx_def lbl_def chosen'_def] lim by (simp add: result'_def)
    have "length result' + length (filter (\<lambda>l. l \<noteq> []) chosen') =
          length result + length (filter (\<lambda>l. l \<noteq> []) chosen)"
      using length_filter_splice_out [OF idx, of "\<lambda>l. l \<noteq> []"]
      by (simp add: result'_def chosen'_def lbl)
    with IH step show ?thesis by simp
  qed
qed

lemma lessThanNumber_Num: "lessThanNumber len (Num v) = (len < nat \<lceil>v\<rceil>)"
proof -
  have "real len < v \<longleftrightarrow> int len < \<lceil>v\<rceil>"
    by (simp add: less_ceiling_iff)
  also have "\<dots> \<longleftrightarrow> len < nat \<lceil>v\<rceil>"
    by (simp add: zless_nat_eq_int_zless)
  finally show ?thesis
    by simp
qed

lemma random_n_loop_length:
  "length (random_n_loop seed k chosen []) =
     (case k of
        Num v \<Rightarrow> min (nat \<lceil>v\<rceil>) (length (filter (\<lambda>l. l \<noteq> []) chosen))
      | NaN \<Rightarrow> 0
      | Infinity \<Rightarrow> length (filter (\<lambda>l. l \<noteq> []) chosen)
      | NegInfinity \<Rightarrow> 0)"
proof (cases k)
  case (Num v)
  have "\<forall>len. lessThanNumber len (Num v) = (len < nat \<lceil>v\<rceil>)"
    by (simp only: lessThanNumber_Num) simp
  from random_n_loop_length_limit [OF this, of "[]" seed chosen] Num show ?thesis
    by simp
next
  case NaN
  have "\<forall>len. lessThanNumber len NaN = (len < 0)"
    by simp
  from random_n_loop_length_limit [OF this, of "[]" seed chosen] NaN show ?thesis
    by simp
next
  case Infinity
  have "\<forall>len. lessThanNumber len Infinity"
    by simp
  from random_n_loop_length_unlimited [OF this, of seed chosen "[]"] Infinity show ?thesis
    by simp
next
  case NegInfinity
  have "\<forall>len. lessThanNumber len NegInfinity = (len < 0)"
    by simp
  from random_n_loop_length_limit [OF this, of "[]" seed chosen] NegInfinity show ?thesis
    by simp
qed

lemma distinct_of_mset_subseteq:
  assumes "mset r \<subseteq># mset xs" and "distinct xs"
  shows "distinct r"
proof -
  have le: "count (mset r) a \<le> count (mset xs) a" for a
    by (rule mset_subset_eq_count [OF assms(1)])
  have "count (mset xs) a \<le> 1" for a
    using assms(2) by (simp add: distinct_count_atmost_1)
  with le have le1: "count (mset r) a \<le> 1" for a
    by (meson order_trans)
  have "count (mset r) a = (if a \<in> set r then 1 else 0)" for a
  proof (cases "a \<in> set r")
    case True
    then have "1 \<le> count (mset r) a"
      by (simp add: Suc_le_eq)
    with le1 [of a] have "count (mset r) a = 1"
      by (rule le_antisym)
    with True show ?thesis by simp
  next
    case False
    then show ?thesis by (simp add: count_mset_0_iff)
  qed
  then show ?thesis
    by (simp add: distinct_count_atmost_1)
qed


lemma pickByMode_in_labels:
  "labels \<noteq> [] \<Longrightarrow> pickByMode labels m seed \<in> set labels"
  by (cases m) (auto simp: pickByMode_def at_or_empty_def seededIndex_less last_conv_nth [symmetric])

lemma deterministicSelection_non_ruleset:
  "strat \<noteq> Strategy_ruleset \<Longrightarrow>
   deterministicSelection s strat rs rid =
     (if options s = [] then []
      else filter (\<lambda>l. l \<noteq> [])
             [pickByMode (map label (options s))
                (if strat = Strategy_first then Pick_first
                 else if strat = Strategy_last then Pick_last else Pick_random)
                (rid @ '':'' @ questionText s)])"
  by (simp add: deterministicSelection_def Let_def)

lemma deterministicSelection_ruleset_multi:
  "inputType s = multi_select \<Longrightarrow>
   deterministicSelection s Strategy_ruleset rs rid =
     (if options s = [] then []
      else if multiSelectMode rs = Mode_all then map label (options s)
      else if multiSelectMode rs = Mode_random_n
        then random_n_loop (rid @ '':'' @ questionText s) (multiSelectCount rs)
               (map label (options s)) []
      else sliceFromStart (map label (options s)) (multiSelectCount rs))"
  by (simp add: deterministicSelection_def Let_def)

lemma multiSelectCount_cases:
  "multiSelectCount rs =
     (case configuredCount rs of
        None \<Rightarrow> Num 2
      | Some (Num v) \<Rightarrow> Num (max 1 v)
      | Some NaN \<Rightarrow> NaN
      | Some Infinity \<Rightarrow> Infinity
      | Some NegInfinity \<Rightarrow> Num 1)"
  by (simp add: multiSelectCount_def split: option.splits JsNumber.splits)



lemma random_n_result:
  assumes "inputType s = multi_select" and "multiSelectMode rs = Mode_random_n"
  shows "mset (deterministicSelection s Strategy_ruleset rs rid)
           \<subseteq># mset (filter (\<lambda>l. l \<noteq> []) (map label (options s)))"
    and "length (deterministicSelection s Strategy_ruleset rs rid) =
           (case configuredCount rs of
                 None \<Rightarrow> min 2 (length (filter (\<lambda>l. l \<noteq> []) (map label (options s))))
               | Some (Num v) \<Rightarrow> min (nat \<lceil>max 1 v\<rceil>) (length (filter (\<lambda>l. l \<noteq> []) (map label (options s))))
               | Some NaN \<Rightarrow> 0
               | Some Infinity \<Rightarrow> (length (filter (\<lambda>l. l \<noteq> []) (map label (options s))))
               | Some NegInfinity \<Rightarrow> min 1 (length (filter (\<lambda>l. l \<noteq> []) (map label (options s)))))"
proof -
  have res: "deterministicSelection s Strategy_ruleset rs rid =
      random_n_loop (rid @ '':'' @ questionText s) (multiSelectCount rs) (map label (options s)) []"
  proof (cases "options s = []")
    case True
    then show ?thesis
      using assms by (simp add: deterministicSelection_ruleset_multi random_n_loop_stop)
  next
    case False
    then show ?thesis
      using assms by (simp add: deterministicSelection_ruleset_multi)
  qed
  show "mset (deterministicSelection s Strategy_ruleset rs rid)
           \<subseteq># mset (filter (\<lambda>l. l \<noteq> []) (map label (options s)))"
    unfolding res
    using random_n_loop_mset [of "rid @ '':'' @ questionText s" "multiSelectCount rs"
        "map label (options s)" "[]"]
    by simp
  show "length (deterministicSelection s Strategy_ruleset rs rid) =
           (case configuredCount rs of
                 None \<Rightarrow> min 2 (length (filter (\<lambda>l. l \<noteq> []) (map label (options s))))
               | Some (Num v) \<Rightarrow> min (nat \<lceil>max 1 v\<rceil>) (length (filter (\<lambda>l. l \<noteq> []) (map label (options s))))
               | Some NaN \<Rightarrow> 0
               | Some Infinity \<Rightarrow> (length (filter (\<lambda>l. l \<noteq> []) (map label (options s))))
               | Some NegInfinity \<Rightarrow> min 1 (length (filter (\<lambda>l. l \<noteq> []) (map label (options s)))))"
    unfolding res random_n_loop_length multiSelectCount_cases
    by (simp split: option.splits JsNumber.splits)
qed


lemma str_includes_iff_sublist: "str_includes h needle \<longleftrightarrow> sublist needle h"
  by (induction h) (simp_all add: sublist_Cons_right)

lemma rollingHash_snoc:
  "(\<Sum>i < length (xs @ [x]). of_char ((xs @ [x]) ! i) * 31 ^ (length (xs @ [x]) - 1 - i)) =
   (\<Sum>i < length xs. of_char (xs ! i) * 31 ^ (length xs - 1 - i)) * 31 + (of_char x :: nat)"
proof -
  have "(\<Sum>i < length xs. of_char ((xs @ [x]) ! i) * 31 ^ (length xs - i)) =
        (\<Sum>i < length xs. (of_char (xs ! i) * 31 ^ (length xs - 1 - i)) * (31 :: nat))"
  proof (rule sum.cong)
    fix i assume "i \<in> {..<length xs}"
    then have i: "i < length xs" by simp
    then have "length xs - i = Suc (length xs - 1 - i)" by simp
    then have "(31 :: nat) ^ (length xs - i) = 31 ^ (length xs - 1 - i) * 31"
      by simp
    with i show "of_char ((xs @ [x]) ! i) * 31 ^ (length xs - i) =
                 (of_char (xs ! i) * 31 ^ (length xs - 1 - i)) * (31 :: nat)"
      by (simp add: nth_append)
  qed simp
  then show ?thesis
    by (simp add: sum_distrib_right)
qed

lemma mod_mult_add_left:
  "((a mod m) * b + c) mod m = (a * b + c) mod (m :: nat)"
  by (metis mod_add_left_eq mod_mult_left_eq)

lemma foldl_hashStep:
  "foldl hashStep 0 seed =
   (\<Sum>i < length seed. of_char (seed ! i) * 31 ^ (length seed - 1 - i)) mod 2 ^ 32"
proof (induction seed rule: rev_induct)
  case Nil
  show ?case by simp
next
  case (snoc x xs)
  have "foldl hashStep 0 (xs @ [x]) = hashStep (foldl hashStep 0 xs) x"
    by simp
  also have "\<dots> = ((\<Sum>i < length xs. of_char (xs ! i) * 31 ^ (length xs - 1 - i)) * 31 + of_char x) mod 2 ^ 32"
    unfolding snoc.IH hashStep_def by (rule mod_mult_add_left)
  finally show ?case
    by (simp only: rollingHash_snoc)
qed

lemma seededIndex_rollingHash:
  "seededIndex seed len = (if len = 0 then 0 else rollingHash seed mod len)"
  by (simp add: seededIndex_def rollingHash_def foldl_hashStep)



section \<open>Claims on the strategy engine\<close>

lemma ev_multiRuleset:
  "configuredCount (multiRuleset md k) = Some k" "multiSelectMode (multiRuleset md k) = md"
  by (simp_all add: configuredCount_def multiSelectMode_def multiRuleset_def)

lemma ev_fiveOptions:
  "inputType fiveOptions = multi_select"
  "map label (options fiveOptions) = [''a'', ''b'', ''c'', ''d'', ''e'']"
  "questionText fiveOptions = ''Pick''"
  by (simp_all add: fiveOptions_def)






lemma rollingHash_foldl: "rollingHash seed = foldl hashStep 0 seed"
  by (simp add: rollingHash_def foldl_hashStep)

lemma char_of_eq:
  "(c = char_of (k :: nat)) = (of_char c = k mod 256)"
  "(char_of (k :: nat) = c) = (of_char c = k mod 256)"
  by (metis char_of_char char_of_mod_256 of_char_of)+

lemma ev_emailRuleset:
  "textKeywords emailRuleset = [(''email'', ''a@b.com'')]"
  "textDefault emailRuleset fb = ''N/A''"
  by (simp_all add: textKeywords_def textDefault_def emailRuleset_def)


text \<open>
  Claim C4. \<open>deterministicSelection\<close> reads of the snapshot only the question text, the
  option labels in order and the input type: two calls that agree on these, on the
  strategy, the ruleset and the run id return the same labels. Under the strategy
  \<open>random\<close> the label returned is the one at the index given by the polynomial rolling
  hash of the seed \<open>runId:questionText\<close> modulo the number of options (nothing when the
  label at that index is empty).
\<close>

theorem deterministicSelection_deterministic:
  assumes "questionText s1 = questionText s2"
    and "map label (options s1) = map label (options s2)"
    and "inputType s1 = inputType s2"
  shows "deterministicSelection s1 strat rs rid = deterministicSelection s2 strat rs rid
       \<and> deterministicSelection s1 Strategy_random rs rid =
           (if options s1 = [] then []
            else filter (\<lambda>l. l \<noteq> [])
                   [map label (options s1) !
                      (rollingHash (rid @ '':'' @ questionText s1) mod length (options s1))])"
proof
  show "deterministicSelection s1 strat rs rid = deterministicSelection s2 strat rs rid"
    unfolding deterministicSelection_def assms by (rule refl)
next
  show "deterministicSelection s1 Strategy_random rs rid =
           (if options s1 = [] then []
            else filter (\<lambda>l. l \<noteq> [])
                   [map label (options s1) !
                      (rollingHash (rid @ '':'' @ questionText s1) mod length (options s1))])"
    by (simp add: deterministicSelection_def pickByMode_def at_or_empty_def
        seededIndex_rollingHash Let_def)
qed


theorem deterministicSelection_deterministic_witness:
  "questionText fiveOptions = questionText fiveOptionsElsewhere
   \<and> map label (options fiveOptions) = map label (options fiveOptionsElsewhere)
   \<and> inputType fiveOptions = inputType fiveOptionsElsewhere
   \<and> deterministicSelection fiveOptions Strategy_random None ''run-1''
       = deterministicSelection fiveOptionsElsewhere Strategy_random None ''run-1''
   \<and> rollingHash ''run-1:Pick'' mod 5 = 3
   \<and> deterministicSelection fiveOptions Strategy_random None ''run-1'' = [''d'']"
proof -
  have h1: "questionText fiveOptions = questionText fiveOptionsElsewhere"
    by (simp add: fiveOptions_def fiveOptionsElsewhere_def)
  have h2: "map label (options fiveOptions) = map label (options fiveOptionsElsewhere)"
    by (simp add: fiveOptions_def fiveOptionsElsewhere_def)
  have h3: "inputType fiveOptions = inputType fiveOptionsElsewhere"
    by (simp add: fiveOptions_def fiveOptionsElsewhere_def)
  have h4: "rollingHash ''run-1:Pick'' mod 5 = 3"
    by (simp add: rollingHash_foldl hashStep_def)
  note inst = deterministicSelection_deterministic [OF h1 h2 h3, of Strategy_random None "''run-1''"]
  from inst have pick: "deterministicSelection fiveOptions Strategy_random None ''run-1'' =
      (if options fiveOptions = [] then []
       else filter (\<lambda>l. l \<noteq> [])
              [map label (options fiveOptions) !
                 (rollingHash (''run-1'' @ '':'' @ questionText fiveOptions)
                    mod length (options fiveOptions))])"
    by (rule conjunct2)
  have h5: "deterministicSelection fiveOptions Strategy_random None ''run-1'' = [''d'']"
    unfolding pick using h4 by (simp add: fiveOptions_def)
  from inst have "deterministicSelection fiveOptions Strategy_random None ''run-1''
       = deterministicSelection fiveOptionsElsewhere Strategy_random None ''run-1''"
    by (rule conjunct1)
  with h1 h2 h3 h4 h5 show ?thesis
    by (intro conjI)
qed


lemma filter_nonempty_id: "[] \<notin> set xs \<Longrightarrow> filter (\<lambda>l. l \<noteq> []) xs = xs"
  by (induction xs) auto

lemma random_n_wellformed:
  assumes "inputType s = multi_select" and "multiSelectMode rs = Mode_random_n"
    and "distinct (map label (options s))" and "[] \<notin> set (map label (options s))"
  shows "distinct (deterministicSelection s Strategy_ruleset rs rid)
       \<and> set (deterministicSelection s Strategy_ruleset rs rid) \<subseteq> set (map label (options s))
       \<and> length (deterministicSelection s Strategy_ruleset rs rid) =
           (case configuredCount rs of
                 None \<Rightarrow> min 2 (length (options s))
               | Some (Num v) \<Rightarrow> min (nat \<lceil>max 1 v\<rceil>) (length (options s))
               | Some NaN \<Rightarrow> 0
               | Some Infinity \<Rightarrow> (length (options s))
               | Some NegInfinity \<Rightarrow> min 1 (length (options s)))"
proof -
  have sub: "mset (deterministicSelection s Strategy_ruleset rs rid) \<subseteq># mset (map label (options s))"
    using random_n_result(1) [OF assms(1,2), of rid] filter_nonempty_id [OF assms(4)]
    by simp
  have "distinct (deterministicSelection s Strategy_ruleset rs rid)"
    using sub assms(3) by (rule distinct_of_mset_subseteq)
  moreover have "set (deterministicSelection s Strategy_ruleset rs rid) \<subseteq> set (map label (options s))"
    using sub by (metis set_mset_mono set_mset_mset)
  moreover have "length (deterministicSelection s Strategy_ruleset rs rid) =
           (case configuredCount rs of
                 None \<Rightarrow> min 2 (length (options s))
               | Some (Num v) \<Rightarrow> min (nat \<lceil>max 1 v\<rceil>) (length (options s))
               | Some NaN \<Rightarrow> 0
               | Some Infinity \<Rightarrow> (length (options s))
               | Some NegInfinity \<Rightarrow> min 1 (length (options s)))"
    using random_n_result(2) [OF assms(1,2), of rid] filter_nonempty_id [OF assms(4)]
    by (simp split: option.splits JsNumber.splits)
  ultimately show ?thesis
    by blast
qed

lemma random_n_integer_count:
  assumes "inputType s = multi_select" and "multiSelectMode rs = Mode_random_n"
    and "distinct (map label (options s))" and "[] \<notin> set (map label (options s))"
    and "configuredCount rs = Some (Num (of_int i))" and "1 \<le> i"
  shows "length (deterministicSelection s Strategy_ruleset rs rid) = min (nat i) (length (options s))"
proof -
  have "max 1 (of_int i :: real) = of_int i"
    using assms(6) by (simp add: max_def)
  with random_n_wellformed [OF assms(1-4), of rid] assms(5) show ?thesis
    by simp
qed

text \<open>
  Claim C8, as amended. On a \<open>multi_select\<close> snapshot under the \<open>ruleset\<close> strategy, the
  mode \<open>all\<close> returns every option label. The mode \<open>random_n\<close> draws without replacement
  among the labels that are not empty, and stops at the first number of labels that is
  not below the count in use, \<open>Math.max(1, multiSelect.n ?? 2)\<close>: it returns as many
  labels as that count rounded up, or every label that is not empty when they are
  fewer (nothing for \<open>NaN\<close>, every such label for \<open>Infinity\<close>). On options whose labels
  are unique and not empty (as the labels of every extracted snapshot are) the labels
  returned are pairwise distinct labels of the options; when moreover \<open>multiSelect.n\<close>
  is an integer \<open>i\<close> that is at least 1, their number is the smaller of \<open>i\<close> and the
  number of options.
\<close>

theorem random_n_without_replacement:
  assumes "inputType s = multi_select"
  shows "(multiSelectMode rs = Mode_all \<longrightarrow>
            deterministicSelection s Strategy_ruleset rs rid = map label (options s))
       \<and> (multiSelectMode rs = Mode_random_n \<longrightarrow>
            mset (deterministicSelection s Strategy_ruleset rs rid)
              \<subseteq># mset (filter (\<lambda>l. l \<noteq> []) (map label (options s)))
          \<and> length (deterministicSelection s Strategy_ruleset rs rid) =
              (case configuredCount rs of
                 None \<Rightarrow> min 2 (length (filter (\<lambda>l. l \<noteq> []) (map label (options s))))
               | Some (Num v) \<Rightarrow> min (nat \<lceil>max 1 v\<rceil>) (length (filter (\<lambda>l. l \<noteq> []) (map label (options s))))
               | Some NaN \<Rightarrow> 0
               | Some Infinity \<Rightarrow> (length (filter (\<lambda>l. l \<noteq> []) (map label (options s))))
               | Some NegInfinity \<Rightarrow> min 1 (length (filter (\<lambda>l. l \<noteq> []) (map label (options s))))))
       \<and> (multiSelectMode rs = Mode_random_n \<and> distinct (map label (options s))
          \<and> [] \<notin> set (map label (options s)) \<longrightarrow>
            distinct (deterministicSelection s Strategy_ruleset rs rid)
          \<and> set (deterministicSelection s Strategy_ruleset rs rid) \<subseteq> set (map label (options s))
          \<and> length (deterministicSelection s Strategy_ruleset rs rid) =
              (case configuredCount rs of
                 None \<Rightarrow> min 2 (length (options s))
               | Some (Num v) \<Rightarrow> min (nat \<lceil>max 1 v\<rceil>) (length (options s))
               | Some NaN \<Rightarrow> 0
               | Some Infinity \<Rightarrow> (length (options s))
               | Some NegInfinity \<Rightarrow> min 1 (length (options s))))
       \<and> (multiSelectMode rs = Mode_random_n \<and> distinct (map label (options s))
          \<and> [] \<notin> set (map label (options s))
          \<and> configuredCount rs = Some (Num (of_int i)) \<and> 1 \<le> i \<longrightarrow>
            length (deterministicSelection s Strategy_ruleset rs rid) =
              min (nat i) (length (options s)))"
proof -
  have "deterministicSelection s Strategy_ruleset rs rid = map label (options s)"
    if "multiSelectMode rs = Mode_all"
    using assms that by (simp add: deterministicSelection_ruleset_multi)
  then show ?thesis
    using random_n_wellformed [OF assms, of rs rid] random_n_result [OF assms, of rs rid]
      random_n_integer_count [OF assms, of rs i rid]
    by blast
qed

theorem random_n_without_replacement_witness:
  "inputType fiveOptions = multi_select
   \<and> multiSelectMode (multiRuleset Mode_random_n (Num 3)) = Mode_random_n
   \<and> distinct (map label (options fiveOptions))
   \<and> [] \<notin> set (map label (options fiveOptions))
   \<and> configuredCount (multiRuleset Mode_random_n (Num 3)) = Some (Num (of_int 3))
   \<and> distinct (deterministicSelection fiveOptions Strategy_ruleset (multiRuleset Mode_random_n (Num 3)) ''run-1'')
   \<and> length (deterministicSelection fiveOptions Strategy_ruleset (multiRuleset Mode_random_n (Num 3)) ''run-1'') = 3"
proof -
  have h2: "multiSelectMode (multiRuleset Mode_random_n (Num 3)) = Mode_random_n"
    by (simp add: multiSelectMode_def multiRuleset_def)
  have h3: "distinct (map label (options fiveOptions))"
    by (simp add: ev_fiveOptions)
  have h4: "[] \<notin> set (map label (options fiveOptions))"
    by (simp add: ev_fiveOptions)
  have h5: "configuredCount (multiRuleset Mode_random_n (Num 3)) = Some (Num (of_int 3))"
    by (simp add: ev_multiRuleset)
  have h6: "length (options fiveOptions) = 5"
    by (simp add: fiveOptions_def)
  note inst = random_n_without_replacement
      [OF ev_fiveOptions(1), of "multiRuleset Mode_random_n (Num 3)" "''run-1''" 3]
  from inst h2 h3 h4
  have d: "distinct (deterministicSelection fiveOptions Strategy_ruleset (multiRuleset Mode_random_n (Num 3)) ''run-1'')"
    by blast
  from inst h2 h3 h4 h5
  have "length (deterministicSelection fiveOptions Strategy_ruleset (multiRuleset Mode_random_n (Num 3)) ''run-1'')
          = min (nat 3) (length (options fiveOptions))"
    by simp
  then have l: "length (deterministicSelection fiveOptions Strategy_ruleset (multiRuleset Mode_random_n (Num 3)) ''run-1'') = 3"
    by (simp add: h6)
  from ev_fiveOptions(1) h2 h3 h4 h5 d l show ?thesis
    by (intro conjI)
qed

text \<open>
  Claim C8 as stated fails. An empty label is removed from the pool and not returned:
  of the two options with the labels \<open>''\<close> and \<open>b\<close>, \<open>random_n\<close> with \<open>n = 2\<close> returns
  one label. Two options with the same label are both drawn: the result \<open>a, a\<close> is not
  pairwise distinct. A count that is not an integer is rounded up by the loop
  condition: of five options with unique labels, \<open>random_n\<close> with \<open>n = 2.5\<close> returns
  three.
\<close>

theorem random_n_blank_label_counterexample:
  "length (options blankAndB) = 2
   \<and> multiSelectCount (multiRuleset Mode_random_n (Num 2)) = Num 2
   \<and> length (deterministicSelection blankAndB Strategy_ruleset (multiRuleset Mode_random_n (Num 2)) ''run-1'') = 1
   \<and> length (options twiceA) = 2
   \<and> deterministicSelection twiceA Strategy_ruleset (multiRuleset Mode_random_n (Num 2)) ''run-1''
       = [''a'', ''a'']
   \<and> length (options fiveOptions) = 5
   \<and> multiSelectCount (multiRuleset Mode_random_n (Num (5 / 2))) = Num (5 / 2)
   \<and> deterministicSelection fiveOptions Strategy_ruleset (multiRuleset Mode_random_n (Num (5 / 2))) ''run-1''
       = [''b'', ''e'', ''c'']"
proof -
  have m: "multiSelectMode (multiRuleset Mode_random_n (Num 2)) = Mode_random_n"
    by (simp add: multiSelectMode_def multiRuleset_def)
  have c: "multiSelectCount (multiRuleset Mode_random_n (Num 2)) = Num 2"
    "multiSelectCount (multiRuleset Mode_random_n (Num (5 / 2))) = Num (5 / 2)"
    by (simp_all add: multiSelectCount_def ev_multiRuleset)
  have b: "inputType blankAndB = multi_select" "length (options blankAndB) = 2"
    "filter (\<lambda>l. l \<noteq> []) (map label (options blankAndB)) = [''b'']"
    by (simp_all add: blankAndB_def)
  have a: "inputType twiceA = multi_select" "length (options twiceA) = 2"
    "filter (\<lambda>l. l \<noteq> []) (map label (options twiceA)) = [''a'', ''a'']"
    by (simp_all add: twiceA_def)
  have lb: "length (deterministicSelection blankAndB Strategy_ruleset (multiRuleset Mode_random_n (Num 2)) ''run-1'') = 1"
    using random_n_result(2) [OF b(1) m, of "''run-1''"]
    by (simp add: b ev_multiRuleset)
  have la: "length (deterministicSelection twiceA Strategy_ruleset (multiRuleset Mode_random_n (Num 2)) ''run-1'') = 2"
    using random_n_result(2) [OF a(1) m, of "''run-1''"]
    by (simp add: a ev_multiRuleset)
  have "set (deterministicSelection twiceA Strategy_ruleset (multiRuleset Mode_random_n (Num 2)) ''run-1'')
      \<subseteq> {''a''}"
    using random_n_result(1) [OF a(1) m, of "''run-1''"] set_mset_mono
    by (fastforce simp: a)
  with la have aa: "deterministicSelection twiceA Strategy_ruleset (multiRuleset Mode_random_n (Num 2)) ''run-1''
       = [''a'', ''a'']"
    by (cases "deterministicSelection twiceA Strategy_ruleset (multiRuleset Mode_random_n (Num 2)) ''run-1''";
        cases "tl (deterministicSelection twiceA Strategy_ruleset (multiRuleset Mode_random_n (Num 2)) ''run-1'')")
       auto
  have f: "length (options fiveOptions) = 5"
    by (simp add: fiveOptions_def)
  have n0: "numberToString 0 = ''0''" "numberToString (Suc 0) = ''1''"
    "numberToString (Suc (Suc 0)) = ''2''"
    by (simp_all add: numberToString.simps digitChar_def char_of_eq)
  have "random_n_loop ''run-1:Pick'' (Num (5 / 2)) [''a'', ''b'', ''c'', ''d'', ''e''] []
      = random_n_loop ''run-1:Pick'' (Num (5 / 2))
          (splice_out [''a'', ''b'', ''c'', ''d'', ''e''] 1) ([] @ [''b''])"
    by (rule random_n_loop_pick [where len = 5 and d = "''0''"])
       (simp_all add: n0 seededIndex_def hashStep_def)
  also have "\<dots> = random_n_loop ''run-1:Pick'' (Num (5 / 2)) [''a'', ''c'', ''d'', ''e''] [''b'']"
    by (simp add: splice_out_def)
  also have "\<dots> = random_n_loop ''run-1:Pick'' (Num (5 / 2))
          (splice_out [''a'', ''c'', ''d'', ''e''] 3) ([''b''] @ [''e''])"
    by (rule random_n_loop_pick [where len = 4 and d = "''1''"])
       (simp_all add: n0 seededIndex_def hashStep_def)
  also have "\<dots> = random_n_loop ''run-1:Pick'' (Num (5 / 2)) [''a'', ''c'', ''d''] [''b'', ''e'']"
    by (simp add: splice_out_def)
  also have "\<dots> = random_n_loop ''run-1:Pick'' (Num (5 / 2))
          (splice_out [''a'', ''c'', ''d''] 1) ([''b'', ''e''] @ [''c''])"
    by (rule random_n_loop_pick [where len = 3 and d = "''2''"])
       (simp_all add: n0 seededIndex_def hashStep_def)
  also have "\<dots> = random_n_loop ''run-1:Pick'' (Num (5 / 2)) [''a'', ''d''] [''b'', ''e'', ''c'']"
    by (simp add: splice_out_def)
  also have "\<dots> = [''b'', ''e'', ''c'']"
    by (rule random_n_loop_stop) simp
  finally have s0: "random_n_loop ''run-1:Pick'' (Num (5 / 2)) [''a'', ''b'', ''c'', ''d'', ''e''] []
      = [''b'', ''e'', ''c'']" .
  have ne: "options fiveOptions \<noteq> []"
    by (simp add: fiveOptions_def)
  have bec: "deterministicSelection fiveOptions Strategy_ruleset (multiRuleset Mode_random_n (Num (5 / 2))) ''run-1''
       = [''b'', ''e'', ''c'']"
    by (simp add: deterministicSelection_ruleset_multi ev_fiveOptions ev_multiRuleset c s0 ne)
  from b(2) c(1) lb a(2) aa f c(2) bec show ?thesis
    by (intro conjI)
qed

text \<open>
  Claim C9, as amended. \<open>chooseTextByRuleset\<close> searches the lowered haystack made of the
  question text, a space and the support texts joined by spaces. When the lowered form
  of no key of \<open>text.byKeyword\<close> occurs in it, the result is \<open>text.default\<close>, or the
  fallback (\<open>AUTO_TEST_RESPONSE\<close>) when none is set; otherwise it is the value of the
  first entry, in the order of the map, whose lowered key occurs in it. A key that
  occurs in the lowered question text occurs in the haystack.
\<close>

theorem chooseTextByRuleset_first_match:
  "((\<forall>kv \<in> set (textKeywords rs). \<not> sublist (toLowerCase (fst kv)) (textHaystack s)) \<longrightarrow>
      chooseTextByRuleset s rs fallback = textDefault rs fallback)
   \<and> (\<forall>i < length (textKeywords rs).
        sublist (toLowerCase (fst (textKeywords rs ! i))) (textHaystack s) \<and>
        (\<forall>j < i. \<not> sublist (toLowerCase (fst (textKeywords rs ! j))) (textHaystack s)) \<longrightarrow>
        chooseTextByRuleset s rs fallback = snd (textKeywords rs ! i))
   \<and> (\<forall>k. sublist (toLowerCase k) (toLowerCase (questionText s)) \<longrightarrow>
        sublist (toLowerCase k) (textHaystack s))
   \<and> textHaystack s = toLowerCase (questionText s) @ '' '' @ toLowerCase (join '' '' (supportText s))
   \<and> textDefault rs AUTO_TEST_RESPONSE =
       (case Option.bind (Option.bind rs textRules) defaultText of
          Some d \<Rightarrow> d | None \<Rightarrow> ''AUTO_TEST_RESPONSE'')"
proof (intro conjI impI allI)
  assume none: "\<forall>kv \<in> set (textKeywords rs). \<not> sublist (toLowerCase (fst kv)) (textHaystack s)"
  then have "find (\<lambda>(keyword, _). str_includes (textHaystack s) (toLowerCase keyword)) (textKeywords rs) = None"
    by (auto simp: find_None_iff str_includes_iff_sublist)
  then show "chooseTextByRuleset s rs fallback = textDefault rs fallback"
    by (simp add: chooseTextByRuleset_def)
next
  fix i
  assume i: "i < length (textKeywords rs)"
    and m: "sublist (toLowerCase (fst (textKeywords rs ! i))) (textHaystack s) \<and>
        (\<forall>j < i. \<not> sublist (toLowerCase (fst (textKeywords rs ! j))) (textHaystack s))"
  then have "find (\<lambda>(keyword, _). str_includes (textHaystack s) (toLowerCase keyword)) (textKeywords rs)
      = Some (textKeywords rs ! i)"
    by (auto simp: find_Some_iff str_includes_iff_sublist case_prod_unfold intro!: exI [of _ i])
  then show "chooseTextByRuleset s rs fallback = snd (textKeywords rs ! i)"
    by (simp add: chooseTextByRuleset_def case_prod_unfold)
next
  fix k
  assume "sublist (toLowerCase k) (toLowerCase (questionText s))"
  then obtain ps ss where "toLowerCase (questionText s) = ps @ toLowerCase k @ ss"
    by (auto simp: sublist_def)
  then have "textHaystack s =
      ps @ toLowerCase k @ (ss @ toLowerCase ('' '' @ join '' '' (supportText s)))"
    by (simp add: textHaystack_def toLowerCase_def)
  then show "sublist (toLowerCase k) (textHaystack s)"
    unfolding sublist_def by blast
next
  show "textHaystack s = toLowerCase (questionText s) @ '' '' @ toLowerCase (join '' '' (supportText s))"
    by (simp add: textHaystack_def toLowerCase_def toLowerChar_def)
next
  show "textDefault rs AUTO_TEST_RESPONSE =
       (case Option.bind (Option.bind rs textRules) defaultText of
          Some d \<Rightarrow> d | None \<Rightarrow> ''AUTO_TEST_RESPONSE'')"
    by (simp add: textDefault_def AUTO_TEST_RESPONSE_def)
qed


theorem chooseTextByRuleset_first_match_witness:
  "0 < length (textKeywords emailRuleset)
   \<and> sublist (toLowerCase (fst (textKeywords emailRuleset ! 0))) (textHaystack emailState)
   \<and> chooseTextByRuleset emailState emailRuleset AUTO_TEST_RESPONSE = ''a@b.com''"
proof -
  have h1: "0 < length (textKeywords emailRuleset)"
    by (simp add: ev_emailRuleset)
  have h2: "sublist (toLowerCase (fst (textKeywords emailRuleset ! 0))) (textHaystack emailState)"
    by (simp add: ev_emailRuleset textHaystack_def emailState_def toLowerCase_def toLowerChar_def
        char_of_eq flip: str_includes_iff_sublist)
  from chooseTextByRuleset_first_match [of emailRuleset emailState AUTO_TEST_RESPONSE] h1 h2
  have "chooseTextByRuleset emailState emailRuleset AUTO_TEST_RESPONSE
        = snd (textKeywords emailRuleset ! 0)"
    by auto
  with h1 h2 show ?thesis
    by (simp add: ev_emailRuleset)
qed

text \<open>
  Claim C9 as stated fails: a key that occurs only in the support text is matched too.
  The question text \<open>Contact\<close> does not contain \<open>email\<close>, the support text \<open>Your Email\<close>
  does, and the result is the mapped value instead of the default \<open>N/A\<close>.
\<close>

theorem chooseTextByRuleset_support_text_counterexample:
  "\<not> str_includes (toLowerCase (questionText contactState)) (toLowerCase ''email'')
   \<and> textKeywords emailRuleset = [(''email'', ''a@b.com'')]
   \<and> textDefault emailRuleset AUTO_TEST_RESPONSE = ''N/A''
   \<and> chooseTextByRuleset contactState emailRuleset AUTO_TEST_RESPONSE = ''a@b.com''"
  by (simp add: ev_emailRuleset chooseTextByRuleset_def textHaystack_def contactState_def
      toLowerCase_def toLowerChar_def char_of_eq)

lemma non_ruleset_pick:
  assumes "options s \<noteq> []" and "strat \<noteq> Strategy_ruleset"
  shows "length (deterministicSelection s strat rs rid) \<le> 1"
    and "set (deterministicSelection s strat rs rid) \<subseteq> set (map label (options s))"
    and "[] \<notin> set (map label (options s)) \<Longrightarrow> length (deterministicSelection s strat rs rid) = 1"
proof -
  define picked where "picked = pickByMode (map label (options s))
          (if strat = Strategy_first then Pick_first
           else if strat = Strategy_last then Pick_last else Pick_random)
          (rid @ '':'' @ questionText s)"
  have res: "deterministicSelection s strat rs rid = filter (\<lambda>l. l \<noteq> []) [picked]"
    using assms by (simp add: deterministicSelection_non_ruleset picked_def)
  have mem: "picked \<in> set (map label (options s))"
    unfolding picked_def using assms(1) by (intro pickByMode_in_labels) simp
  show "length (deterministicSelection s strat rs rid) \<le> 1"
    by (simp add: res)
  show "set (deterministicSelection s strat rs rid) \<subseteq> set (map label (options s))"
    using mem by (auto simp: res)
  show "length (deterministicSelection s strat rs rid) = 1" if "[] \<notin> set (map label (options s))"
  proof -
    from mem that have "picked \<noteq> []" by metis
    then show ?thesis by (simp add: res)
  qed
qed

lemma several_labels_only_by_ruleset:
  "1 < length (deterministicSelection s strat rs rid) \<Longrightarrow> strat = Strategy_ruleset"
proof (rule ccontr)
  assume long: "1 < length (deterministicSelection s strat rs rid)"
    and other: "strat \<noteq> Strategy_ruleset"
  from other have "length (deterministicSelection s strat rs rid) \<le> 1"
    by (simp add: deterministicSelection_non_ruleset)
  with long show False by simp
qed

text \<open>
  Claim C10, as amended. On a \<open>multi_select\<close> snapshot with at least one option, the
  strategies \<open>first\<close>, \<open>last\<close> and \<open>random\<close> return at most one label, a label of the
  options, and exactly one when no option label is empty (as in every extracted
  snapshot). Whatever the snapshot, a result of more than one label comes from the
  \<open>ruleset\<close> strategy.
\<close>

theorem at_most_one_pick_outside_ruleset:
  assumes "inputType s = multi_select" and "options s \<noteq> []" and "strat \<noteq> Strategy_ruleset"
  shows "length (deterministicSelection s strat rs rid) \<le> 1
       \<and> set (deterministicSelection s strat rs rid) \<subseteq> set (map label (options s))
       \<and> ([] \<notin> set (map label (options s)) \<longrightarrow>
            length (deterministicSelection s strat rs rid) = 1)
       \<and> (\<forall>s' strat' rs' rid'.
             1 < length (deterministicSelection s' strat' rs' rid') \<longrightarrow>
             strat' = Strategy_ruleset)"
  using non_ruleset_pick [OF assms(2,3), of rs rid] several_labels_only_by_ruleset
  by blast


theorem at_most_one_pick_outside_ruleset_witness:
  "inputType fiveOptions = multi_select \<and> options fiveOptions \<noteq> []
   \<and> Strategy_last \<noteq> Strategy_ruleset \<and> [] \<notin> set (map label (options fiveOptions))
   \<and> length (deterministicSelection fiveOptions Strategy_last None ''run-1'') = 1
   \<and> deterministicSelection fiveOptions Strategy_last None ''run-1'' = [''e'']"
proof -
  have h2: "options fiveOptions \<noteq> []"
    by (simp add: fiveOptions_def)
  have h3: "Strategy_last \<noteq> Strategy_ruleset"
    by simp
  have h4: "[] \<notin> set (map label (options fiveOptions))"
    by (simp add: ev_fiveOptions)
  have h5: "deterministicSelection fiveOptions Strategy_last None ''run-1'' = [''e'']"
    by (simp add: deterministicSelection_non_ruleset h2 ev_fiveOptions pickByMode_def at_or_empty_def)
  from at_most_one_pick_outside_ruleset [OF ev_fiveOptions(1) h2 h3, of None "''run-1''"] h4
  have "length (deterministicSelection fiveOptions Strategy_last None ''run-1'') = 1"
    by blast
  with ev_fiveOptions(1) h2 h3 h4 h5 show ?thesis
    by blast
qed

text \<open>
  Claim C10 as stated fails: the picked label is returned only when it is not empty. On
  a single option with the empty label the strategy \<open>first\<close> returns no label.
\<close>

theorem blank_label_pick_counterexample:
  "inputType blankOption = multi_select \<and> options blankOption \<noteq> []
   \<and> deterministicSelection blankOption Strategy_first None ''run-1'' = []"
  by (simp add: blankOption_def deterministicSelection_def pickByMode_def at_or_empty_def)



section \<open>Lemmas on the extractor\<close>

text \<open>
  The options map stays keyed by label through the three passes of the extractor, so
  the labels of every extracted snapshot are unique and not empty.
\<close>

lemma mapSet_keys:
  "map fst (mapSet m k v) = (if k \<in> set (map fst m) then map fst m else map fst m @ [k])"
  by (induction m k v rule: mapSet.induct) auto

lemma mapSet_entries: "set (mapSet m k v) \<subseteq> insert (k, v) (set m)"
  by (induction m k v rule: mapSet.induct) auto

lemma keyedByLabel_mapSet:
  assumes "keyedByLabel m" and "label v = k" and "k \<noteq> []"
  shows "keyedByLabel (mapSet m k v)"
proof -
  have "distinct (map fst (mapSet m k v))"
    using assms(1) by (simp add: mapSet_keys keyedByLabel_def)
  moreover have "\<forall>kv \<in> set (mapSet m k v). label (snd kv) = fst kv \<and> fst kv \<noteq> []"
    using assms mapSet_entries [of m k v] by (auto simp: keyedByLabel_def)
  ultimately show ?thesis
    by (simp add: keyedByLabel_def)
qed

lemma foldl_preserves:
  assumes "P a" and "\<And>b x. P b \<Longrightarrow> P (f b x)"
  shows "P (foldl f a xs)"
  using assms(1) by (induction xs arbitrary: a) (simp_all add: assms(2))

lemma keyedByLabel_readOptionsFromRole:
  "keyedByLabel m \<Longrightarrow> keyedByLabel (readOptionsFromRole items m)"
  unfolding readOptionsFromRole_def
  by (rule foldl_preserves) (auto simp: keyedByLabel_mapSet split: option.splits)

lemma keyedByLabel_readOptionButtons:
  "keyedByLabel m \<Longrightarrow> keyedByLabel (readOptionButtons items m)"
  unfolding readOptionButtons_def
  by (rule foldl_preserves) (auto simp: keyedByLabel_mapSet split: option.splits)

lemma keyedByLabel_labels: "keyedByLabel m \<Longrightarrow> map label (map snd m) = map fst m"
  by (simp add: keyedByLabel_def)

lemma keyedByLabel_optionsMap:
  "keyedByLabel (readOptionButtons bs (readOptionsFromRole cs (readOptionsFromRole rs [])))"
  by (intro keyedByLabel_readOptionButtons keyedByLabel_readOptionsFromRole)
     (simp add: keyedByLabel_def)

lemma extractFromContext_labels:
  "map label (options (extractFromContext target)) =
   map fst (readOptionButtons (buttonElements target)
              (readOptionsFromRole (checkboxElements target)
                 (readOptionsFromRole (radioElements target) [])))"
  using keyedByLabel_labels [OF keyedByLabel_optionsMap]
  by (simp add: extractFromContext_def Let_def)

lemma labelsWellFormed_extractFromContext: "labelsWellFormed (extractFromContext target)"
  using keyedByLabel_optionsMap [of "buttonElements target" "checkboxElements target" "radioElements target"]
  unfolding labelsWellFormed_def extractFromContext_labels
  by (auto simp: keyedByLabel_def)

lemma firstValidFrame_labels:
  "firstValidFrame frames = Some st \<Longrightarrow> labelsWellFormed st"
  by (induction frames rule: firstValidFrame.induct)
     (auto simp: Let_def labelsWellFormed_extractFromContext split: if_splits)

lemma labelsWellFormed_extractQuestionState: "labelsWellFormed (extractQuestionState ctx)"
  by (cases ctx)
     (auto simp: Let_def labelsWellFormed_extractFromContext firstValidFrame_labels
           split: option.splits)

text \<open>On extracted snapshots the two selections behave as the specification words them.\<close>

lemma extracted_random_n:
  assumes "inputType (extractQuestionState ctx) = multi_select"
    and "multiSelectMode rs = Mode_random_n"
    and "configuredCount rs = Some (Num (of_int i))" and "1 \<le> i"
  shows "distinct (deterministicSelection (extractQuestionState ctx) Strategy_ruleset rs rid)
       \<and> length (deterministicSelection (extractQuestionState ctx) Strategy_ruleset rs rid) =
           min (nat i) (length (options (extractQuestionState ctx)))"
proof -
  have wf: "distinct (map label (options (extractQuestionState ctx)))"
    "[] \<notin> set (map label (options (extractQuestionState ctx)))"
    using labelsWellFormed_extractQuestionState [of ctx]
    by (simp_all add: labelsWellFormed_def)
  from random_n_wellformed [OF assms(1,2) wf, of rid]
    random_n_integer_count [OF assms(1,2) wf assms(3,4), of rid]
  show ?thesis
    by simp
qed

lemma extracted_single_pick:
  assumes "options (extractQuestionState ctx) \<noteq> []" and "strat \<noteq> Strategy_ruleset"
  shows "length (deterministicSelection (extractQuestionState ctx) strat rs rid) = 1"
  using non_ruleset_pick(3) [OF assms, of rs rid] labelsWellFormed_extractQuestionState [of ctx]
  by (simp add: labelsWellFormed_def)


lemma ev_yesNoSurface:
  "options (extractFromContext yesNoSurface) =
     [\<lparr>label = ''Yes'', selected = False\<rparr>, \<lparr>label = ''NO'', selected = False\<rparr>]"
  by (simp add: extractFromContext_def yesNoSurface_def readOptionsFromRole_def
      readOptionButtons_def visibleLabelsForRole_def NAVIGATION_LABEL_def mapHas_def
      toLowerCase_def toLowerChar_def isWordChar_def char_of_eq Let_def)


section \<open>Claims on the extractor\<close>

text \<open>
  Claim C5. Two snapshots with the same question text, the same progress, the same
  \<open>label:selected\<close> pairs in the same order and the same filled value have the same
  fingerprint, whatever their support text, input type, navigation buttons, visible
  input count and URL.
\<close>

theorem stateFingerprint_stable:
  assumes "questionText s1 = questionText s2"
    and "progress s1 = progress s2"
    and "map (\<lambda>opt. (label opt, selected opt)) (options s1) =
         map (\<lambda>opt. (label opt, selected opt)) (options s2)"
    and "filledValue s1 = filledValue s2"
  shows "stateFingerprint s1 = stateFingerprint s2"
proof -
  have "map ((\<lambda>(l, b). l @ '':'' @ (if b then ''1'' else ''0'')) \<circ> (\<lambda>opt. (label opt, selected opt))) (options s1) =
        map ((\<lambda>(l, b). l @ '':'' @ (if b then ''1'' else ''0'')) \<circ> (\<lambda>opt. (label opt, selected opt))) (options s2)"
    using assms(3) by (simp only: map_map [symmetric])
  then have "map (\<lambda>opt. label opt @ '':'' @ (if selected opt then ''1'' else ''0'')) (options s1) =
        map (\<lambda>opt. label opt @ '':'' @ (if selected opt then ''1'' else ''0'')) (options s2)"
    by (simp add: comp_def)
  then show ?thesis
    using assms(1,2,4) by (simp add: stateFingerprint_def)
qed


theorem stateFingerprint_stable_witness:
  "questionText agreeState = questionText agreeStateElsewhere
   \<and> progress agreeState = progress agreeStateElsewhere
   \<and> map (\<lambda>opt. (label opt, selected opt)) (options agreeState) =
       map (\<lambda>opt. (label opt, selected opt)) (options agreeStateElsewhere)
   \<and> filledValue agreeState = filledValue agreeStateElsewhere
   \<and> supportText agreeState \<noteq> supportText agreeStateElsewhere
   \<and> inputType agreeState \<noteq> inputType agreeStateElsewhere
   \<and> navigationButtons agreeState \<noteq> navigationButtons agreeStateElsewhere
   \<and> visibleInputCount agreeState \<noteq> visibleInputCount agreeStateElsewhere
   \<and> url agreeState \<noteq> url agreeStateElsewhere
   \<and> stateFingerprint agreeState = stateFingerprint agreeStateElsewhere"
proof -
  have h1: "questionText agreeState = questionText agreeStateElsewhere"
    and h2: "progress agreeState = progress agreeStateElsewhere"
    and h3: "map (\<lambda>opt. (label opt, selected opt)) (options agreeState) =
       map (\<lambda>opt. (label opt, selected opt)) (options agreeStateElsewhere)"
    and h4: "filledValue agreeState = filledValue agreeStateElsewhere"
    by (simp_all add: agreeState_def agreeStateElsewhere_def)
  have others: "supportText agreeState \<noteq> supportText agreeStateElsewhere"
    "inputType agreeState \<noteq> inputType agreeStateElsewhere"
    "navigationButtons agreeState \<noteq> navigationButtons agreeStateElsewhere"
    "visibleInputCount agreeState \<noteq> visibleInputCount agreeStateElsewhere"
    "url agreeState \<noteq> url agreeStateElsewhere"
    by (simp_all add: agreeState_def agreeStateElsewhere_def)
  from stateFingerprint_stable [OF h1 h2 h3 h4] h1 h2 h3 h4 others show ?thesis
    by (intro conjI)
qed


text \<open>
  Claim C6. A snapshot is a valid survey surface exactly when its visible input count is
  positive or it has a navigation button: with count 0 and no button it is not valid,
  and one more visible control or one button makes it valid.
\<close>

theorem isValidSurveySurface_iff:
  "isValidSurveySurface s = (visibleInputCount s > 0 \<or> navigationButtons s \<noteq> [])
   \<and> \<not> isValidSurveySurface (s\<lparr>visibleInputCount := 0, navigationButtons := []\<rparr>)
   \<and> isValidSurveySurface (s\<lparr>visibleInputCount := Suc k\<rparr>)
   \<and> isValidSurveySurface (s\<lparr>navigationButtons := b # bs\<rparr>)"
  by (simp add: isValidSurveySurface_def)

theorem isValidSurveySurface_iff_witness:
  "\<not> isValidSurveySurface (agreeState\<lparr>visibleInputCount := 0, navigationButtons := []\<rparr>)
   \<and> isValidSurveySurface (agreeState\<lparr>visibleInputCount := Suc 0\<rparr>)
   \<and> isValidSurveySurface (agreeState\<lparr>navigationButtons := [''Next'']\<rparr>)"
  using isValidSurveySurface_iff [of agreeState 0 "''Next''" "[]"]
  by blast


text \<open>
  Claim C7. The extractor derives the input type in this order of precedence: exactly
  two options whose lowered labels include \<open>yes\<close> and \<open>no\<close> give \<open>yes_no\<close>, whatever
  the controls; else a visible text input gives \<open>text\<close>; else a checkbox gives
  \<open>multi_select\<close>; else a radio button gives \<open>single_select\<close>; else \<open>unknown\<close>. The
  options are deduplicated by label.
\<close>

theorem inputType_precedence:
  "inputType (extractFromContext target) =
     (if length (options (extractFromContext target)) = 2
         \<and> ''yes'' \<in> set (map (\<lambda>opt. toLowerCase (label opt)) (options (extractFromContext target)))
         \<and> ''no'' \<in> set (map (\<lambda>opt. toLowerCase (label opt)) (options (extractFromContext target)))
      then yes_no
      else if filter tbVisible (textboxElements target) \<noteq> [] then text_input
      else if checkboxElements target \<noteq> [] then multi_select
      else if radioElements target \<noteq> [] then single_select
      else unknown)
   \<and> distinct (map label (options (extractFromContext target)))"
proof
  have len: "length (options (extractFromContext target)) =
      length (map fst (readOptionButtons (buttonElements target)
              (readOptionsFromRole (checkboxElements target)
                 (readOptionsFromRole (radioElements target) []))))"
    by (simp add: extractFromContext_def Let_def)
  have lab: "map (\<lambda>opt. toLowerCase (label opt)) (options (extractFromContext target)) =
      map toLowerCase (map fst (readOptionButtons (buttonElements target)
              (readOptionsFromRole (checkboxElements target)
                 (readOptionsFromRole (radioElements target) []))))"
    using extractFromContext_labels [of target, symmetric] by (simp add: comp_def)
  have "inputType (extractFromContext target) =
      deriveInputType (length (radioElements target)) (length (checkboxElements target))
        (length (filter tbVisible (textboxElements target)))
        (map fst (readOptionButtons (buttonElements target)
              (readOptionsFromRole (checkboxElements target)
                 (readOptionsFromRole (radioElements target) []))))"
    by (simp add: extractFromContext_def Let_def)
  then show "inputType (extractFromContext target) =
     (if length (options (extractFromContext target)) = 2
         \<and> ''yes'' \<in> set (map (\<lambda>opt. toLowerCase (label opt)) (options (extractFromContext target)))
         \<and> ''no'' \<in> set (map (\<lambda>opt. toLowerCase (label opt)) (options (extractFromContext target)))
      then yes_no
      else if filter tbVisible (textboxElements target) \<noteq> [] then text_input
      else if checkboxElements target \<noteq> [] then multi_select
      else if radioElements target \<noteq> [] then single_select
      else unknown)"
    unfolding len lab by (simp add: deriveInputType_def Let_def)
next
  show "distinct (map label (options (extractFromContext target)))"
    using labelsWellFormed_extractFromContext [of target] by (simp add: labelsWellFormed_def)
qed

theorem inputType_precedence_witness:
  "radioElements yesNoSurface \<noteq> [] \<and> filter tbVisible (textboxElements yesNoSurface) \<noteq> []
   \<and> map label (options (extractFromContext yesNoSurface)) = [''Yes'', ''NO'']
   \<and> inputType (extractFromContext yesNoSurface) = yes_no"
proof -
  have h1: "radioElements yesNoSurface \<noteq> []"
      "filter tbVisible (textboxElements yesNoSurface) \<noteq> []"
    by (simp_all add: yesNoSurface_def)
  have h2: "map label (options (extractFromContext yesNoSurface)) = [''Yes'', ''NO'']"
    by (simp add: ev_yesNoSurface)
  have "inputType (extractFromContext yesNoSurface) = yes_no"
    using inputType_precedence [of yesNoSurface]
    by (simp add: ev_yesNoSurface toLowerCase_def toLowerChar_def char_of_eq)
  with h1 h2 show ?thesis
    by (intro conjI)
qed


section \<open>Lemmas on the step engine\<close>

lemma markProgressed_iff:
  "markProgressed st ex =
     (execFailed ex = [] \<and>
      (execProgressed ex \<or> stateFingerprint (afterState ex) \<noteq> stateFingerprint st))"
  by (auto simp: markProgressed_def Let_def)

lemma afterExecution_steps:
  assumes "afterExecution run se k rep stag st dec arts ex = Break r
         \<or> afterExecution run se k rep stag st dec arts ex = Continue r stag'"
  shows "\<exists>x. steps r = steps rep @ [x] \<and> step x = k \<and> state x = st \<and> decision x = dec
           \<and> progressed x = markProgressed st ex \<and> assertionsFailed x = execFailed ex"
  using assms
  by (auto simp: afterExecution_def Let_def caught_def split: if_splits Outcome.splits)

lemma markedAsSpecified_executed:
  assumes "executed (stepEnv env (step x)) = Returns browser"
    and "action (decision x) \<noteq> cannot_proceed"
    and "progressed x = markProgressed (state x) (executeDecision (state x) (decision x) browser)"
    and "assertionsFailed x = execFailed (executeDecision (state x) (decision x) browser)"
  shows "markedAsSpecified env x"
  using assms by (simp add: markedAsSpecified_def markProgressed_iff)

lemma stepBody_reaches:
  "stepBody run env k rep stag = Break r \<or> stepBody run env k rep stag = Continue r stag' \<Longrightarrow>
   steps r = steps rep
   \<or> (\<exists>x. steps r = steps rep @ [x] \<and> step x = k \<and> action (decision x) = cannot_proceed
            \<and> \<not> progressed x \<and> assertionsFailed x \<noteq> [])
   \<or> (\<exists>st browser. executed (stepEnv env k) = Returns browser
         \<and> action (decide run (stepEnv env k) st) \<noteq> cannot_proceed
         \<and> (\<exists>arts. afterExecution run (stepEnv env k) k rep stag st (decide run (stepEnv env k) st) arts
                (executeDecision st (decide run (stepEnv env k) st) browser) = Break r
              \<or> afterExecution run (stepEnv env k) k rep stag st (decide run (stepEnv env k) st) arts
                (executeDecision st (decide run (stepEnv env k) st) browser) = Continue r stag'))"
  by (auto simp: stepBody_def Let_def caught_def split: if_splits Outcome.splits option.splits)

lemma stepBody_steps:
  assumes "stepBody run env k rep stag = Break r \<or> stepBody run env k rep stag = Continue r stag'"
  shows "steps r = steps rep
       \<or> (\<exists>x. steps r = steps rep @ [x] \<and> step x = k \<and> markedAsSpecified env x)"
proof -
  consider (same) "steps r = steps rep"
    | (cannot) x where "steps r = steps rep @ [x]" "step x = k"
        "action (decision x) = cannot_proceed" "\<not> progressed x" "assertionsFailed x \<noteq> []"
    | (exec) st browser arts where "executed (stepEnv env k) = Returns browser"
        "action (decide run (stepEnv env k) st) \<noteq> cannot_proceed"
        "afterExecution run (stepEnv env k) k rep stag st (decide run (stepEnv env k) st) arts
                (executeDecision st (decide run (stepEnv env k) st) browser) = Break r
              \<or> afterExecution run (stepEnv env k) k rep stag st (decide run (stepEnv env k) st) arts
                (executeDecision st (decide run (stepEnv env k) st) browser) = Continue r stag'"
    using stepBody_reaches [OF assms] by blast
  then show ?thesis
  proof cases
    case same
    then show ?thesis by simp
  next
    case cannot
    then show ?thesis by (auto simp: markedAsSpecified_def)
  next
    case exec
    from afterExecution_steps [OF exec(3)]
    obtain x where x: "steps r = steps rep @ [x]" "step x = k" "state x = st"
        "decision x = decide run (stepEnv env k) st"
        "progressed x = markProgressed st (executeDecision st (decide run (stepEnv env k) st) browser)"
        "assertionsFailed x = execFailed (executeDecision st (decide run (stepEnv env k) st) browser)"
      by blast
    have "markedAsSpecified env x"
      using exec(1,2) x by (intro markedAsSpecified_executed [of env x browser]) simp_all
    with x(1,2) show ?thesis by blast
  qed
qed

lemma iterate_invariant:
  assumes "1 \<le> k" and "k \<le> maxStepsOf run + 1" and "length (steps rep) < k"
    and "\<forall>x \<in> set (steps rep). 1 \<le> step x \<and> step x < k \<and> markedAsSpecified env x"
  shows "length (steps (iterate run env k rep stag)) \<le> maxStepsOf run
       \<and> (\<forall>x \<in> set (steps (iterate run env k rep stag)).
             1 \<le> step x \<and> step x \<le> maxStepsOf run \<and> markedAsSpecified env x)"
  using assms
proof (induction run env k rep stag rule: iterate.induct)
  case (1 run env k rep stag)
  show ?case
  proof (cases "k \<le> maxStepsOf run")
    case False
    then have it: "iterate run env k rep stag = rep"
      by (simp add: iterate.simps [of run env k rep stag])
    from False "1.prems" have "k = maxStepsOf run + 1" by simp
    with "1.prems" show ?thesis
      unfolding it by fastforce
  next
    case True
    show ?thesis
    proof (cases "stepBody run env k rep stag")
      case (Break r)
      then have it: "iterate run env k rep stag = r"
        using True by (simp add: iterate.simps [of run env k rep stag])
      from stepBody_steps [of run env k rep stag r 0] Break
      have "steps r = steps rep
       \<or> (\<exists>x. steps r = steps rep @ [x] \<and> step x = k \<and> markedAsSpecified env x)"
        by simp
      with "1.prems" have "length (steps r) \<le> k
          \<and> (\<forall>x \<in> set (steps r). 1 \<le> step x \<and> step x \<le> k \<and> markedAsSpecified env x)"
        by fastforce
      with True show ?thesis
        unfolding it by fastforce
    next
      case (Continue r stag')
      then have it: "iterate run env k rep stag = iterate run env (k + 1) r stag'"
        using True by (simp add: iterate.simps [of run env k rep stag])
      from stepBody_steps [of run env k rep stag r stag'] Continue
      have "steps r = steps rep
       \<or> (\<exists>x. steps r = steps rep @ [x] \<and> step x = k \<and> markedAsSpecified env x)"
        by simp
      with "1.prems"
      have "length (steps r) < k + 1"
        and "\<forall>x \<in> set (steps r). 1 \<le> step x \<and> step x < k + 1 \<and> markedAsSpecified env x"
        by fastforce+
      with "1.IH" [OF True Continue] "1.prems"(1) True show ?thesis
        unfolding it by simp
    qed
  qed
qed

lemma runSurvey_invariant:
  "length (steps (runSurvey run env)) \<le> maxStepsOf run
   \<and> (\<forall>x \<in> set (steps (runSurvey run env)).
         1 \<le> step x \<and> step x \<le> maxStepsOf run \<and> markedAsSpecified env x)"
proof -
  have "length (steps (iterate run env 1 \<lparr>status = success, message = ''Survey run completed.'', steps = []\<rparr> 0)) \<le> maxStepsOf run
       \<and> (\<forall>x \<in> set (steps (iterate run env 1 \<lparr>status = success, message = ''Survey run completed.'', steps = []\<rparr> 0)).
             1 \<le> step x \<and> step x \<le> maxStepsOf run \<and> markedAsSpecified env x)"
    by (rule iterate_invariant) simp_all
  then show ?thesis
    by (auto simp: runSurvey_def Let_def caught_def split: Outcome.splits)
qed


lemma openingLoop_valid:
  "isValidSurveySurface st \<Longrightarrow> openingLoop env st retries = Returns st"
  by (simp add: openingLoop.simps [of env st retries])

lemma iterate_Continue:
  "k \<le> maxStepsOf run \<Longrightarrow> stepBody run env k rep stag = Continue r stag' \<Longrightarrow>
   iterate run env k rep stag = iterate run env (k + 1) r stag'"
  by (subst iterate.simps) simp

lemma iterate_Break:
  "k \<le> maxStepsOf run \<Longrightarrow> stepBody run env k rep stag = Break r \<Longrightarrow>
   iterate run env k rep stag = r"
  by (subst iterate.simps) simp

lemma iterate_exit:
  "\<not> k \<le> maxStepsOf run \<Longrightarrow> iterate run env k rep stag = rep"
  by (subst iterate.simps) simp

lemma stepBody_stagnant:
  assumes "stagnantStep run (stepEnv env k)" and "undisturbedStep run env k"
    and "completeSurvey run"
  shows "(1 \<le> stag \<longrightarrow>
            (\<exists>r x. stepBody run env k rep stag = Break r \<and> status r = blocked
                   \<and> steps r = steps rep @ [x] \<and> step x = k \<and> \<not> progressed x))
       \<and> (stag = 0 \<and> k < maxStepsOf run \<longrightarrow>
            (\<exists>x. stepBody run env k rep stag = Continue (rep\<lparr>steps := steps rep @ [x]\<rparr>) 1
                 \<and> step x = k \<and> \<not> progressed x))"
proof -
  from assms(1) obtain st browser where
    ex: "extracted (stepEnv env k) = Returns st" "executed (stepEnv env k) = Returns browser"
    and failed: "execFailed (executeDecision st (decide run (stepEnv env k) st) browser) \<noteq> []"
    by (auto simp: stagnantStep_def split: Outcome.splits)
  from assms(2) ex have und:
    "\<not> isCompletionLikely st" "externalExit env run st k = None"
    "action (decide run (stepEnv env k) st) \<noteq> cannot_proceed"
    "action (decide run (stepEnv env k) st) \<noteq> click_submit"
    "captureScreenshots run \<or> needs_screenshot (decide run (stepEnv env k) st) \<longrightarrow>
       preActionShot (stepEnv env k) = Returns ()"
    "\<not> captureScreenshots run \<longrightarrow> extraShot (stepEnv env k) = Returns ()"
    "\<not> isCompletionLikely (afterState (executeDecision st (decide run (stepEnv env k) st) browser))"
    by (simp_all add: undisturbedStep_def)
  have notprog: "\<not> markProgressed st (executeDecision st (decide run (stepEnv env k) st) browser)"
    using failed by (simp add: markProgressed_def Let_def)
  have body: "stepBody run env k rep stag =
      afterExecution run (stepEnv env k) k rep stag st (decide run (stepEnv env k) st)
        (if captureScreenshots run \<or> needs_screenshot (decide run (stepEnv env k) st)
         then [screenshotName ''pre-action'' k] else [])
        (executeDecision st (decide run (stepEnv env k) st) browser)"
    using ex und assms(3) by (simp add: stepBody_def Let_def)
  show ?thesis
    unfolding body using und notprog
    by (auto simp: afterExecution_def Let_def)
qed

lemma stagnant_run:
  "(gotoResult env = Returns () \<and> openingState env 0 = Returns first
      \<and> openingLoop env first 0 = Returns initial \<and> isValidSurveySurface initial
      \<and> completeSurvey run \<and> 2 \<le> maxStepsOf run
      \<and> stagnantStep run (stepEnv env 1) \<and> undisturbedStep run env 1
      \<and> stagnantStep run (stepEnv env 2) \<and> undisturbedStep run env 2
    \<longrightarrow> status (runSurvey run env) = blocked
        \<and> map step (steps (runSurvey run env)) = [1, 2]
        \<and> map progressed (steps (runSurvey run env)) = [False, False])"
proof (intro impI, elim conjE)
  assume op: "gotoResult env = Returns ()" "openingState env 0 = Returns first"
    "openingLoop env first 0 = Returns initial" "isValidSurveySurface initial"
    and cfg: "completeSurvey run" "2 \<le> maxStepsOf run"
    and s1: "stagnantStep run (stepEnv env 1)" "undisturbedStep run env 1"
    and s2: "stagnantStep run (stepEnv env 2)" "undisturbedStep run env 2"
  define rep0 where "rep0 = \<lparr>status = success, message = ''Survey run completed.'', steps = []\<rparr>"
  have run: "runSurvey run env = iterate run env 1 rep0 0"
    using op by (simp add: runSurvey_def rep0_def)
  from stepBody_stagnant [OF s1 cfg(1), of 0 rep0] cfg(2)
  obtain x1 where x1: "stepBody run env 1 rep0 0 = Continue (rep0\<lparr>steps := steps rep0 @ [x1]\<rparr>) 1"
    "step x1 = 1" "\<not> progressed x1"
    by auto
  from stepBody_stagnant [OF s2 cfg(1), of 1 "rep0\<lparr>steps := steps rep0 @ [x1]\<rparr>"]
  obtain r x2 where x2: "stepBody run env 2 (rep0\<lparr>steps := steps rep0 @ [x1]\<rparr>) 1 = Break r"
    "status r = blocked" "steps r = steps (rep0\<lparr>steps := steps rep0 @ [x1]\<rparr>) @ [x2]"
    "step x2 = 2" "\<not> progressed x2"
    by auto
  have "1 \<le> maxStepsOf run"
    using cfg(2) by linarith
  then have "iterate run env 1 rep0 0 =
      iterate run env (1 + 1) (rep0\<lparr>steps := steps rep0 @ [x1]\<rparr>) 1"
    using x1(1) by (rule iterate_Continue)
  then have "iterate run env 1 rep0 0 =
      iterate run env 2 (rep0\<lparr>steps := steps rep0 @ [x1]\<rparr>) 1"
    unfolding one_add_one .
  also have "\<dots> = r"
    using cfg(2) x2(1) by (rule iterate_Break)
  finally have "runSurvey run env = r"
    using run by simp
  with x1 x2 show "status (runSurvey run env) = blocked
        \<and> map step (steps (runSurvey run env)) = [1, 2]
        \<and> map progressed (steps (runSurvey run env)) = [False, False]"
    by (simp add: rep0_def)
qed



lemma unmet_assertion_fails:
  assumes "waitForProgress st (polledStates b) (timeoutState b) = (p, after)"
    and "questionText st = questionText after"
    and "a \<in> set (assertions dec)" and "\<not> checkAssertion a after"
  shows "a \<in> set (execFailed (executeDecision st dec b))
       \<and> \<not> markProgressed st (executeDecision st dec b)"
proof -
  have "a \<in> set (execFailed (executeDecision st dec b))"
    using assms by (simp add: executeDecision_def)
  then show ?thesis
    by (auto simp: markProgressed_iff)
qed

lemma fallbackDecision_confidence:
  "confidence (fallbackDecision rid st strat rs) \<le> 35 / 100"
  by (simp add: fallbackDecision_def Let_def)

text \<open>The runs at the concrete inputs.\<close>

lemma retryLoop_succeeds:
  "attemptOnce dec (atts 0) \<Longrightarrow> retryLoop dec atts 0 False = True"
  by (simp add: retryLoop.simps [of dec atts 0] retryLoop.simps [of dec atts "Suc 0"])

lemma ev_agreeState:
  "stateFingerprint agreeState = ''Agree?||Yes:0,No:0|''"
  "isValidSurveySurface agreeState"
  "\<not> isCompletionLikely agreeState"
  by (simp_all add: agreeState_def stateFingerprint_def isValidSurveySurface_def
      isCompletionLikely_def toLowerCase_def toLowerChar_def char_of_eq)

lemma ev_stuck_select:
  "executeDecision agreeState selectYes stuckBrowser =
     \<lparr>execSucceeded = True, execProgressed = False, afterState = agreeState,
      execPassed = [], execFailed = [''Selection not reflected: Yes'']\<rparr>"
proof -
  have "retryLoop selectYes (attempts stuckBrowser) 0 False = True"
    by (rule retryLoop_succeeds)
       (simp add: attemptOnce_def perform_def selectYes_def stuckBrowser_def)
  moreover have "waitForProgress agreeState (polledStates stuckBrowser) (timeoutState stuckBrowser)
      = (False, agreeState)"
    by (simp add: stuckBrowser_def)
  moreover have "filter selected (options agreeState) = []"
    by (simp add: agreeState_def)
  moreover have "assertions selectYes = []" "selections selectYes = [''Yes'']"
      "action selectYes = select_single"
    by (simp_all add: selectYes_def)
  ultimately show ?thesis
    by (simp add: executeDecision_def)
qed

lemma ev_stuck_submit:
  "executeDecision agreeState submitNow stuckBrowser =
     \<lparr>execSucceeded = True, execProgressed = False, afterState = agreeState,
      execPassed = [], execFailed = [''Submitted'']\<rparr>"
proof -
  have "retryLoop submitNow (attempts stuckBrowser) 0 False = True"
    by (rule retryLoop_succeeds)
       (simp add: attemptOnce_def perform_def submitNow_def stuckBrowser_def)
  moreover have "waitForProgress agreeState (polledStates stuckBrowser) (timeoutState stuckBrowser)
      = (False, agreeState)"
    by (simp add: stuckBrowser_def)
  moreover have "\<not> checkAssertion ''Submitted'' agreeState"
    by (simp add: checkAssertion_def agreeState_def toLowerCase_def toLowerChar_def char_of_eq)
  moreover have "assertions submitNow = [''Submitted'']" "action submitNow = click_submit"
    by (simp_all add: submitNow_def)
  ultimately show ?thesis
    by (simp add: executeDecision_def)
qed

lemma ev_stuckEnv:
  "gotoResult (stuckEnv d) = Returns ()"
  "openingState (stuckEnv d) k = Returns agreeState"
  "stepEnv (stuckEnv d) k = stuckStep d"
  "extracted (stuckStep d) = Returns agreeState"
  "executed (stuckStep d) = Returns stuckBrowser"
  "preActionShot (stuckStep d) = Returns ()"
  "extraShot (stuckStep d) = Returns ()"
  "decide run (stuckStep d) st = d"
  "externalExit (stuckEnv d) defaultRun agreeState k = None"
  by (simp_all add: stuckEnv_def stuckStep_def decide_def externalExit_def defaultRun_def
      agreeState_def)

lemma ev_stagnant_select: "stagnantStep defaultRun (stuckStep selectYes)"
  by (simp add: stagnantStep_def ev_stuckEnv ev_stuck_select)

lemma ev_undisturbed_select: "undisturbedStep defaultRun (stuckEnv selectYes) k"
  by (simp add: undisturbedStep_def ev_stuckEnv ev_stuck_select ev_agreeState)
     (simp add: selectYes_def)

lemma ev_defaultRun:
  "completeSurvey defaultRun" "maxStepsOf defaultRun = 40" "\<not> captureScreenshots defaultRun"
  by (simp_all add: defaultRun_def maxStepsOf_def)

lemma ev_submit_run:
  "runSurvey defaultRun (stuckEnv submitNow) =
     \<lparr>status = success, message = ''Survey submission step executed.'',
      steps = [\<lparr>step = 1, state = agreeState, decision = submitNow, actionSucceeded = True,
                 progressed = False, assertionsPassed = [],
                 assertionsFailed = [''Submitted''], artifacts = []\<rparr>]\<rparr>"
proof -
  have body: "stepBody defaultRun (stuckEnv submitNow) 1
      \<lparr>status = success, message = ''Survey run completed.'', steps = []\<rparr> 0 =
     Break \<lparr>status = success, message = ''Survey submission step executed.'',
      steps = [\<lparr>step = 1, state = agreeState, decision = submitNow, actionSucceeded = True,
                 progressed = False, assertionsPassed = [],
                 assertionsFailed = [''Submitted''], artifacts = []\<rparr>]\<rparr>"
    by (simp add: stepBody_def ev_stuckEnv ev_agreeState ev_defaultRun ev_stuck_submit
        afterExecution_def markProgressed_def Let_def)
       (simp add: submitNow_def)
  have "iterate defaultRun (stuckEnv submitNow) 1
      \<lparr>status = success, message = ''Survey run completed.'', steps = []\<rparr> 0 =
     \<lparr>status = success, message = ''Survey submission step executed.'',
      steps = [\<lparr>step = 1, state = agreeState, decision = submitNow, actionSucceeded = True,
                 progressed = False, assertionsPassed = [],
                 assertionsFailed = [''Submitted''], artifacts = []\<rparr>]\<rparr>"
    using body by (intro iterate_Break) (simp_all add: ev_defaultRun)
  then show ?thesis
    by (simp add: runSurvey_def ev_stuckEnv ev_agreeState openingLoop_valid)
qed


section \<open>Claims on the step engine\<close>

text \<open>
  Claim C1, as amended. In a run that opens on a valid surface with \<open>completeSurvey\<close>
  set and \<open>maxSteps\<close> at least 2, if in each of the first two steps the fingerprint after
  the execution equals the one before and at least one assertion fails, and the step
  takes no other exit of the loop (no completion text before or after the action, no
  exit to an external domain, a decision that is neither \<open>cannot_proceed\<close> nor
  \<open>click_submit\<close>, nothing thrown), then the engine ends with status \<open>blocked\<close> after
  exactly two recorded steps, numbered 1 and 2, both marked not progressed. In every
  run the loop records at most \<open>maxSteps\<close> steps, numbered from 1 to \<open>maxSteps\<close>.
\<close>

theorem stagnation_blocks_after_two_steps:
  "(gotoResult env = Returns () \<and> openingState env 0 = Returns first
      \<and> openingLoop env first 0 = Returns initial \<and> isValidSurveySurface initial
      \<and> completeSurvey run \<and> 2 \<le> maxStepsOf run
      \<and> stagnantStep run (stepEnv env 1) \<and> undisturbedStep run env 1
      \<and> stagnantStep run (stepEnv env 2) \<and> undisturbedStep run env 2
    \<longrightarrow> status (runSurvey run env) = blocked
        \<and> map step (steps (runSurvey run env)) = [1, 2]
        \<and> map progressed (steps (runSurvey run env)) = [False, False])
   \<and> length (steps (runSurvey run env)) \<le> maxStepsOf run
   \<and> (\<forall>r \<in> set (steps (runSurvey run env)). 1 \<le> step r \<and> step r \<le> maxStepsOf run)"
  using stagnant_run [of env first initial run] runSurvey_invariant [of run env]
  by blast

theorem stagnation_blocks_after_two_steps_witness:
  "gotoResult (stuckEnv selectYes) = Returns ()
   \<and> openingState (stuckEnv selectYes) 0 = Returns agreeState
   \<and> openingLoop (stuckEnv selectYes) agreeState 0 = Returns agreeState
   \<and> isValidSurveySurface agreeState
   \<and> completeSurvey defaultRun \<and> 2 \<le> maxStepsOf defaultRun
   \<and> stagnantStep defaultRun (stepEnv (stuckEnv selectYes) 1)
   \<and> undisturbedStep defaultRun (stuckEnv selectYes) 1
   \<and> stagnantStep defaultRun (stepEnv (stuckEnv selectYes) 2)
   \<and> undisturbedStep defaultRun (stuckEnv selectYes) 2
   \<and> status (runSurvey defaultRun (stuckEnv selectYes)) = blocked
   \<and> map step (steps (runSurvey defaultRun (stuckEnv selectYes))) = [1, 2]
   \<and> map progressed (steps (runSurvey defaultRun (stuckEnv selectYes))) = [False, False]"
proof -
  have h: "gotoResult (stuckEnv selectYes) = Returns ()
   \<and> openingState (stuckEnv selectYes) 0 = Returns agreeState
   \<and> openingLoop (stuckEnv selectYes) agreeState 0 = Returns agreeState
   \<and> isValidSurveySurface agreeState
   \<and> completeSurvey defaultRun \<and> 2 \<le> maxStepsOf defaultRun
   \<and> stagnantStep defaultRun (stepEnv (stuckEnv selectYes) 1)
   \<and> undisturbedStep defaultRun (stuckEnv selectYes) 1
   \<and> stagnantStep defaultRun (stepEnv (stuckEnv selectYes) 2)
   \<and> undisturbedStep defaultRun (stuckEnv selectYes) 2"
    by (simp add: ev_stuckEnv ev_agreeState openingLoop_valid ev_defaultRun
        ev_stagnant_select ev_undisturbed_select)
  with stagnation_blocks_after_two_steps [of "stuckEnv selectYes" agreeState agreeState defaultRun]
  show ?thesis
    by blast
qed

text \<open>
  Claim C1 as stated fails: a \<open>click_submit\<close> step that does not progress ends the run
  with status \<open>success\<close>. Here the only executed step keeps the fingerprint and fails the
  assertion \<open>Submitted\<close>, and the run ends after that one step, not blocked.
\<close>

theorem stagnation_submit_counterexample:
  "gotoResult (stuckEnv submitNow) = Returns ()
   \<and> openingState (stuckEnv submitNow) 0 = Returns agreeState
   \<and> isValidSurveySurface agreeState
   \<and> maxStepsOf defaultRun = 40
   \<and> stagnantStep defaultRun (stepEnv (stuckEnv submitNow) 1)
   \<and> status (runSurvey defaultRun (stuckEnv submitNow)) = success
   \<and> map step (steps (runSurvey defaultRun (stuckEnv submitNow))) = [1]
   \<and> map progressed (steps (runSurvey defaultRun (stuckEnv submitNow))) = [False]"
  by (simp add: ev_submit_run ev_stuckEnv ev_agreeState ev_defaultRun stagnantStep_def
      ev_stuck_submit)


text \<open>
  Claim C3. Every step that the run records for an executed decision is marked
  progressed exactly when the executor reported progress or the fingerprint after the
  execution differs from the one before, and no assertion failed: a failed assertion
  marks the step not progressed whatever the fingerprint and the executor's signal.
  (The only other recorded step, that of a \<open>cannot_proceed\<close> decision, is not executed;
  it carries the failed assertion \<open>Cannot proceed.\<close> and is marked not progressed.)
\<close>

theorem step_marked_progressed:
  "\<forall>r \<in> set (steps (runSurvey run env)).
     (action (decision r) = cannot_proceed \<and> \<not> progressed r \<and> assertionsFailed r \<noteq> [])
     \<or> (\<exists>browser. executed (stepEnv env (step r)) = Returns browser
           \<and> assertionsFailed r = execFailed (executeDecision (state r) (decision r) browser)
           \<and> progressed r =
               (execFailed (executeDecision (state r) (decision r) browser) = []
                \<and> (execProgressed (executeDecision (state r) (decision r) browser)
                   \<or> stateFingerprint (afterState (executeDecision (state r) (decision r) browser))
                      \<noteq> stateFingerprint (state r))))"
proof
  fix r
  assume "r \<in> set (steps (runSurvey run env))"
  with runSurvey_invariant [of run env] have "markedAsSpecified env r"
    by blast
  then show "(action (decision r) = cannot_proceed \<and> \<not> progressed r \<and> assertionsFailed r \<noteq> [])
     \<or> (\<exists>browser. executed (stepEnv env (step r)) = Returns browser
           \<and> assertionsFailed r = execFailed (executeDecision (state r) (decision r) browser)
           \<and> progressed r =
               (execFailed (executeDecision (state r) (decision r) browser) = []
                \<and> (execProgressed (executeDecision (state r) (decision r) browser)
                   \<or> stateFingerprint (afterState (executeDecision (state r) (decision r) browser))
                      \<noteq> stateFingerprint (state r))))"
    by (cases "executed (stepEnv env (step r))")
       (auto simp: markedAsSpecified_def split: if_splits)
qed

theorem step_marked_progressed_witness:
  "map step (steps (runSurvey defaultRun (stuckEnv submitNow))) = [1]
   \<and> action (decision (hd (steps (runSurvey defaultRun (stuckEnv submitNow))))) \<noteq> cannot_proceed
   \<and> executed (stepEnv (stuckEnv submitNow) 1) = Returns stuckBrowser
   \<and> execFailed (executeDecision agreeState submitNow stuckBrowser) = [''Submitted'']
   \<and> \<not> progressed (hd (steps (runSurvey defaultRun (stuckEnv submitNow))))"
proof -
  define r where "r = hd (steps (runSurvey defaultRun (stuckEnv submitNow)))"
  have r: "r = \<lparr>step = 1, state = agreeState, decision = submitNow, actionSucceeded = True,
                 progressed = False, assertionsPassed = [],
                 assertionsFailed = [''Submitted''], artifacts = []\<rparr>"
    by (simp add: r_def ev_submit_run)
  have mem: "r \<in> set (steps (runSurvey defaultRun (stuckEnv submitNow)))"
    by (simp add: r ev_submit_run)
  have act: "action (decision r) \<noteq> cannot_proceed"
    by (simp add: r submitNow_def)
  have ex: "executed (stepEnv (stuckEnv submitNow) 1) = Returns stuckBrowser"
    by (simp add: ev_stuckEnv)
  have failed: "execFailed (executeDecision agreeState submitNow stuckBrowser) = [''Submitted'']"
    by (simp add: ev_stuck_submit)
  from step_marked_progressed [of defaultRun "stuckEnv submitNow"] mem act
  obtain browser where b: "executed (stepEnv (stuckEnv submitNow) (step r)) = Returns browser"
    and p: "progressed r =
               (execFailed (executeDecision (state r) (decision r) browser) = []
                \<and> (execProgressed (executeDecision (state r) (decision r) browser)
                   \<or> stateFingerprint (afterState (executeDecision (state r) (decision r) browser))
                      \<noteq> stateFingerprint (state r)))"
    by blast
  from b have "browser = stuckBrowser"
    by (simp add: ev_stuckEnv)
  with p failed have "\<not> progressed r"
    by (simp add: r)
  with act ex failed show ?thesis
    unfolding r_def by (simp add: ev_submit_run)
qed

end
